(* ===== verification/C_Prelude.thy ===== *)
theory C_Prelude
  imports Main "HOL-Library.Word" "HOL-Library.Finite_Map" "HOL-Library.Sublist"
begin

text \<open>
  What every component model shares: the result type of a C function that may return, call
  \<open>exit\<close> or run into undefined behaviour; C strings as byte lists with an explicit
  terminator; and the functions of the C library the sources call (\<open>strchr\<close>,
  \<open>strrchr\<close>, \<open>strstr\<close>, \<open>strncpy\<close>, \<open>strncmp\<close>, \<open>atoi\<close>, decimal and hexadecimal
  \<open>printf\<close> conversions), with the lemmas the components use about them.
  A \<^typ>\<open>char\<close> is one byte.  A pointer is \<^typ>\<open>nat option\<close>, \<^term>\<open>None\<close> being
  \<open>NULL\<close>.
\<close>

named_theorems c_simps \<open>evaluation rules of the C primitives\<close>

section \<open>Outcomes\<close>

type_synonym addr = nat
type_synonym u8 = "8 word"
type_synonym u16 = "16 word"
type_synonym u32 = "32 word"

text \<open>Undefined behaviour is an explicit value, classified by what went wrong.\<close>

datatype fault =
    Null_Deref | Oob_Read | Oob_Write | Uninit_Read
  | Use_After_Free | Bad_Shift | Div_By_Zero

datatype 'a outcome = Ret 'a | Exit int | Fault fault

fun obind :: "'a outcome \<Rightarrow> ('a \<Rightarrow> 'b outcome) \<Rightarrow> 'b outcome" where
  "obind (Ret x) k = k x"
| "obind (Exit c) k = Exit c"
| "obind (Fault f) k = Fault f"

fun oget :: "fault \<Rightarrow> 'a option \<Rightarrow> 'a outcome" where
  "oget f None = Fault f"
| "oget f (Some x) = Ret x"

fun returns :: "'a outcome \<Rightarrow> bool" where
  "returns (Ret x) = True"
| "returns (Exit c) = False"
| "returns (Fault f) = False"

lemma obind_Ret_iff [c_simps]:
  "obind m k = Ret y \<longleftrightarrow> (\<exists>x. m = Ret x \<and> k x = Ret y)"
  by (cases m) auto

lemma oget_Ret_iff [c_simps]: "oget f o' = Ret x \<longleftrightarrow> o' = Some x"
  by (cases o') auto

text \<open>Recursion below \<open>obind\<close> may use that the first computation returned.\<close>

lemma obind_cong [fundef_cong]:
  "m = m' \<Longrightarrow> (\<And>x. m' = Ret x \<Longrightarrow> k x = k' x) \<Longrightarrow> obind m k = obind m' k'"
  by (cases m') auto

lemma obind_assoc: "obind (obind m k) l = obind m (\<lambda>x. obind (k x) l)"
  by (cases m) auto

lemma returns_iff: "returns m \<longleftrightarrow> (\<exists>x. m = Ret x)"
  by (cases m) auto

text \<open>Every returned value satisfies \<open>P\<close>; the rules follow the shape of a computation.\<close>

definition ensures :: "('a \<Rightarrow> bool) \<Rightarrow> 'a outcome \<Rightarrow> bool" where
  "ensures P m \<longleftrightarrow> (\<forall>x. m = Ret x \<longrightarrow> P x)"

lemma ensuresD: "ensures P m \<Longrightarrow> m = Ret x \<Longrightarrow> P x"
  by (simp add: ensures_def)

lemma ensures_Fault: "ensures P (Fault f)"
  by (simp add: ensures_def)

lemma ensures_Ret: "P x \<Longrightarrow> ensures P (Ret x)"
  by (simp add: ensures_def)

lemma ensures_obind: "(\<And>x. m = Ret x \<Longrightarrow> ensures P (k x)) \<Longrightarrow> ensures P (obind m k)"
  by (cases m) (simp_all add: ensures_def)

lemma ensures_if: "(b \<Longrightarrow> ensures P m) \<Longrightarrow> (\<not> b \<Longrightarrow> ensures P m') \<Longrightarrow> ensures P (if b then m else m')"
  by simp

lemma ensures_split: "ensures P (g (fst p) (snd p)) \<Longrightarrow> ensures P (case p of (a, b) \<Rightarrow> g a b)"
  by (simp add: case_prod_unfold)

lemma ensures_mono: "ensures P m \<Longrightarrow> (\<And>x. P x \<Longrightarrow> Q x) \<Longrightarrow> ensures Q m"
  by (simp add: ensures_def)

lemmas ensures_rules = ensures_if ensures_obind ensures_split ensures_Fault ensures_Ret

section \<open>C strings\<close>

abbreviation NUL :: char where
  "NUL \<equiv> CHR 0x00"

abbreviation LF :: char where
  "LF \<equiv> CHR 0x0A"

text \<open>
  Reading a block of memory as a string: the bytes before the first terminator,
  \<^term>\<open>None\<close> when the block has none (the read runs off its end).
\<close>

definition cstring :: "string \<Rightarrow> string option" where
  "cstring mem = (if NUL \<in> set mem then Some (takeWhile (\<lambda>c. c \<noteq> NUL) mem) else None)"

definition nul_free :: "string \<Rightarrow> bool" where
  "nul_free s \<longleftrightarrow> NUL \<notin> set s"

lemma nul_free_simps [simp]:
  "nul_free []"
  "nul_free (c # s) \<longleftrightarrow> c \<noteq> NUL \<and> nul_free s"
  "nul_free (s @ t) \<longleftrightarrow> nul_free s \<and> nul_free t"
  by (auto simp: nul_free_def)

lemma takeWhile_nul_free [simp]:
  "nul_free s \<Longrightarrow> takeWhile (\<lambda>c. c \<noteq> NUL) (s @ t) = s @ takeWhile (\<lambda>c. c \<noteq> NUL) t"
  by (induction s) auto

lemma takeWhile_nul_free_all [simp]:
  "nul_free s \<Longrightarrow> takeWhile (\<lambda>c. c \<noteq> NUL) s = s"
  by (induction s) auto

lemma cstring_append_NUL [simp]: "nul_free s \<Longrightarrow> cstring (s @ NUL # t) = Some s"
  by (simp add: cstring_def)

lemma cstring_nul_free: "cstring mem = Some s \<Longrightarrow> nul_free s"
  by (auto simp: cstring_def nul_free_def split: if_splits dest: set_takeWhileD)

lemma cstring_Some_split:
  assumes "cstring mem = Some s"
  obtains rest where "mem = s @ NUL # rest" and "nul_free s"
proof -
  from assms have "NUL \<in> set mem" and s: "s = takeWhile (\<lambda>c. c \<noteq> NUL) mem"
    by (auto simp: cstring_def split: if_splits)
  then obtain ys rest where "mem = ys @ NUL # rest" and "NUL \<notin> set ys"
    by (metis split_list_first)
  moreover from this have "s = ys" and "nul_free ys"
    by (auto simp: s nul_free_def simp flip: nul_free_def)
  ultimately show thesis using that by blast
qed

lemma cstring_length: "cstring mem = Some s \<Longrightarrow> length s < length mem"
  by (erule cstring_Some_split) simp

lemma cstring_replicate [simp]: "0 < n \<Longrightarrow> cstring (replicate n NUL) = Some []"
  by (cases n) (auto simp: cstring_def)

section \<open>Searching and copying\<close>

text \<open>\<open>strchr(s, c) - s\<close> for a character other than the terminator.\<close>

fun strchr :: "string \<Rightarrow> char \<Rightarrow> nat option" where
  "strchr [] c = None"
| "strchr (x # xs) c = (if x = c then Some 0 else map_option Suc (strchr xs c))"

lemma strchr_None_iff [simp]: "strchr s c = None \<longleftrightarrow> c \<notin> set s"
  by (induction s) auto

lemma strchr_SomeD:
  "strchr s c = Some i \<Longrightarrow> i < length s \<and> s ! i = c \<and> c \<notin> set (take i s)"
  by (induction s arbitrary: i) (auto split: if_splits)

lemma strchr_append_hit [simp]: "c \<notin> set s \<Longrightarrow> strchr (s @ c # t) c = Some (length s)"
  by (induction s) auto

text \<open>The string that \<open>strrchr(s, c)\<close> points to: from the last \<open>c\<close> to the end.\<close>

fun strrchr :: "string \<Rightarrow> char \<Rightarrow> string option" where
  "strrchr [] c = None"
| "strrchr (x # xs) c =
     (case strrchr xs c of Some t \<Rightarrow> Some t | None \<Rightarrow> if x = c then Some (x # xs) else None)"

lemma strrchr_None_iff [simp]: "strrchr s c = None \<longleftrightarrow> c \<notin> set s"
  by (induction s) (auto split: option.splits)

lemma strrchr_notin [simp]: "c \<notin> set s \<Longrightarrow> strrchr s c = None"
  by simp

lemma strrchr_snoc [simp]: "strrchr (s @ [c]) c = Some [c]"
  by (induction s) auto

lemma strrchr_append_None [simp]:
  "c \<notin> set t \<Longrightarrow> strrchr (s @ c # t) c = Some (c # t)"
  by (induction s) simp_all

text \<open>Does \<open>strrchr\<close> find its character as the last one of the string?\<close>

lemma strrchr_length_1:
  assumes "strrchr s c = Some t"
  shows "length t = Suc 0 \<longleftrightarrow> last s = c"
  using assms
proof (induction s arbitrary: t)
  case Nil
  then show ?case by simp
next
  case (Cons x xs)
  then show ?case
    by (cases "strrchr xs c") (auto split: if_splits)
qed

text \<open>\<open>strstr(hay, needle) != NULL\<close>.\<close>

fun strstr :: "string \<Rightarrow> string \<Rightarrow> bool" where
  "strstr [] needle = (needle = [])"
| "strstr (x # xs) needle = (prefix needle (x # xs) \<or> strstr xs needle)"

lemma strstr_iff_sublist: "strstr hay needle \<longleftrightarrow> sublist needle hay"
  by (induction hay) (auto simp: sublist_Cons_right)

text \<open>
  \<open>strncpy(dst, src, strlen(src))\<close>: the bytes of \<open>src\<close> are written over the front of
  the array \<open>dst\<close>, no terminator is added; \<^term>\<open>None\<close> when they do not fit.
\<close>

definition strncpy_len :: "string \<Rightarrow> string \<Rightarrow> string option" where
  "strncpy_len dst src =
     (if length src \<le> length dst then Some (src @ drop (length src) dst) else None)"

lemma strncpy_len_length: "strncpy_len dst src = Some d \<Longrightarrow> length d = length dst"
  by (auto simp: strncpy_len_def split: if_splits)

text \<open>A string at the front of a zeroed array.\<close>

definition padded :: "nat \<Rightarrow> string \<Rightarrow> string" where
  "padded n s = s @ replicate (n - length s) NUL"

lemma padded_Nil [simp]: "padded n [] = replicate n NUL"
  by (simp add: padded_def)

lemma length_padded [simp]: "length s \<le> n \<Longrightarrow> length (padded n s) = n"
  by (simp add: padded_def)

lemma strncpy_zero [simp]: "length s \<le> n \<Longrightarrow> strncpy_len (replicate n NUL) s = Some (padded n s)"
  by (simp add: strncpy_len_def padded_def)

lemma cstring_padded [simp]: "nul_free s \<Longrightarrow> length s < n \<Longrightarrow> cstring (padded n s) = Some s"
proof -
  assume nf: "nul_free s" and "length s < n"
  then obtain m where "n - length s = Suc m" by (metis Suc_diff_Suc)
  with nf show ?thesis by (simp add: padded_def)
qed

text \<open>\<open>strncmp(s, t, n) == 0\<close> for terminated \<open>s\<close> and \<open>t\<close>.\<close>

definition strncmp_eq :: "string \<Rightarrow> string \<Rightarrow> nat \<Rightarrow> bool" where
  "strncmp_eq s t n \<longleftrightarrow> take n s = take n t"

lemma strncmp_eq_len: "strncmp_eq s t (length s) \<longleftrightarrow> prefix s t"
  by (auto simp: strncmp_eq_def prefix_def take_all_iff)
     (metis append_take_drop_id)

section \<open>Numbers in text\<close>

definition digit_char :: "nat \<Rightarrow> char" where
  "digit_char d = char_of (48 + d)"

definition is_digit :: "char \<Rightarrow> bool" where
  "is_digit c \<longleftrightarrow> 48 \<le> (of_char c :: nat) \<and> (of_char c :: nat) \<le> 57"

definition digit_val :: "char \<Rightarrow> nat" where
  "digit_val c = of_char c - 48"

lemma digit_char_props [simp]:
  "d < 10 \<Longrightarrow> is_digit (digit_char d)"
  "d < 10 \<Longrightarrow> digit_val (digit_char d) = d"
  by (simp_all add: digit_char_def is_digit_def digit_val_def)

text \<open>\<open>printf("%u")\<close>, and the value of a run of decimal digits.\<close>

fun nat_dec :: "nat \<Rightarrow> string" where
  "nat_dec n = (if n < 10 then [digit_char n] else nat_dec (n div 10) @ [digit_char (n mod 10)])"

declare nat_dec.simps [simp del]

definition dec_val :: "string \<Rightarrow> nat" where
  "dec_val s = foldl (\<lambda>v c. 10 * v + digit_val c) 0 s"

lemma dec_val_snoc [simp]: "dec_val (s @ [c]) = 10 * dec_val s + digit_val c"
  by (simp add: dec_val_def)

lemma nat_dec_digits: "\<forall>c \<in> set (nat_dec n). is_digit c"
proof (induction n rule: nat_dec.induct)
  case (1 n)
  then show ?case by (cases "n < 10") (auto simp: nat_dec.simps [of n])
qed

lemma nat_dec_nonempty [simp]: "nat_dec n \<noteq> []"
  by (subst nat_dec.simps) simp

lemma dec_val_nat_dec [simp]: "dec_val (nat_dec n) = n"
proof (induction n rule: nat_dec.induct)
  case (1 n)
  show ?case
  proof (cases "n < 10")
    case True
    then show ?thesis by (simp add: nat_dec.simps [of n] dec_val_def)
  next
    case False
    with 1 show ?thesis by (simp add: nat_dec.simps [of n])
  qed
qed

lemma nat_dec_hd:
  "0 < n \<Longrightarrow> hd (nat_dec n) \<noteq> CHR ''0''"
proof (induction n rule: nat_dec.induct)
  case (1 n)
  show ?case
  proof (cases "n < 10")
    case True
    have "CHR ''0'' = digit_char 0" by code_simp
    moreover from True have "digit_val (digit_char n) = n" by simp
    ultimately have "digit_char n \<noteq> CHR ''0''" using "1.prems" by (metis digit_char_props(2) less_numeral_extra(3) zero_less_numeral)
    with True show ?thesis by (simp add: nat_dec.simps [of n])
  next
    case False
    with 1 show ?thesis by (simp add: nat_dec.simps [of n])
  qed
qed

lemma nat_dec_length_le:
  "n < 10 ^ k \<Longrightarrow> 0 < k \<Longrightarrow> length (nat_dec n) \<le> k"
proof (induction n arbitrary: k rule: nat_dec.induct)
  case (1 n)
  show ?case
  proof (cases "n < 10")
    case True
    with 1 show ?thesis by (simp add: nat_dec.simps [of n])
  next
    case False
    from "1.prems" obtain j where k: "k = Suc j" by (cases k) auto
    with False "1.prems" have "0 < j" by (cases j) auto
    moreover from k "1.prems" have "n div 10 < 10 ^ j" by auto
    ultimately have "length (nat_dec (n div 10)) \<le> j" using "1.IH" False by simp
    with k False show ?thesis by (simp add: nat_dec.simps [of n])
  qed
qed

lemma is_digit_not:
  "is_digit c \<Longrightarrow> c \<noteq> NUL"  "is_digit c \<Longrightarrow> c \<noteq> CHR ''.''"  "is_digit c \<Longrightarrow> c \<noteq> CHR ''/''"
  "is_digit c \<Longrightarrow> c \<noteq> CHR '':''" "is_digit c \<Longrightarrow> c \<noteq> CHR ''-''" "is_digit c \<Longrightarrow> c \<noteq> CHR ''+''"
  by (auto simp: is_digit_def)

text \<open>\<open>isspace\<close> in the C locale.\<close>

definition c_isspace :: "char \<Rightarrow> bool" where
  "c_isspace c \<longleftrightarrow> c = CHR '' '' \<or> (9 \<le> (of_char c :: nat) \<and> (of_char c :: nat) \<le> 13)"

text \<open>
  \<open>atoi\<close> as glibc has it: \<open>(int) strtol(s, NULL, 10)\<close>, the \<open>long\<close> saturating and
  then truncated to 32 bits.
\<close>

definition c_atoi :: "string \<Rightarrow> int" where
  "c_atoi s =
     (let t = dropWhile c_isspace s;
          neg = (t \<noteq> [] \<and> hd t = CHR ''-'');
          u = (if t \<noteq> [] \<and> (hd t = CHR ''-'' \<or> hd t = CHR ''+'') then tl t else t);
          v = int (dec_val (takeWhile is_digit u));
          w = (if neg then - v else v)
      in signed_take_bit 31 (max (- (2 ^ 63)) (min (2 ^ 63 - 1) w)))"

lemma takeWhile_digits:
  "\<forall>c \<in> set ds. is_digit c \<Longrightarrow> (rest = [] \<or> \<not> is_digit (hd rest)) \<Longrightarrow>
     takeWhile is_digit (ds @ rest) = ds"
  by (cases rest) (auto simp: takeWhile_append2)

lemma c_atoi_nat_dec:
  assumes "n < 2 ^ 31" and "rest = [] \<or> \<not> is_digit (hd rest)"
  shows "c_atoi (nat_dec n @ rest) = int n"
proof -
  obtain d ds where ds: "nat_dec n = d # ds"
    using nat_dec_nonempty by (meson neq_Nil_conv)
  with nat_dec_digits have d: "is_digit d" by (metis list.set_intros(1))
  then have "\<not> c_isspace d" and "d \<noteq> CHR ''-''" and "d \<noteq> CHR ''+''"
    by (auto simp: is_digit_def c_isspace_def)
  then have "c_atoi (nat_dec n @ rest)
      = signed_take_bit 31 (max (- (2 ^ 63)) (min (2 ^ 63 - 1) (int (dec_val (takeWhile is_digit (nat_dec n @ rest))))))"
    by (simp add: c_atoi_def ds Let_def)
  also have "takeWhile is_digit (nat_dec n @ rest) = nat_dec n"
    using nat_dec_digits assms(2) by (rule takeWhile_digits)
  also have "signed_take_bit 31 (max (- (2 ^ 63)) (min (2 ^ 63 - 1) (int (dec_val (nat_dec n)))))
      = signed_take_bit 31 (int n)"
    using assms(1) by simp
  also have "\<dots> = int n"
    using assms(1) by (intro signed_take_bit_int_eq_self) simp_all
  finally show ?thesis .
qed

section \<open>Integers in memory\<close>

text \<open>
  A little-endian 32-bit integer as four bytes, and the integer read from the front of a
  block (callers check that four bytes are there).
\<close>

definition byte :: "string \<Rightarrow> nat \<Rightarrow> nat" where
  "byte mem i = of_char (mem ! i)"

definition le32_bytes :: "u32 \<Rightarrow> string" where
  "le32_bytes w = map char_of [unat w, unat w div 256, unat w div 65536, unat w div 16777216]"

definition le32_of :: "string \<Rightarrow> u32" where
  "le32_of mem =
     of_nat (byte mem 0 + 256 * byte mem 1 + 65536 * byte mem 2 + 16777216 * byte mem 3)"

lemma le32_bytes_length [simp]: "length (le32_bytes w) = 4"
  by (simp add: le32_bytes_def)

lemma byte_less [simp]: "byte mem i < 256"
  by (simp add: byte_def)

lemma base256_digits:
  fixes n :: nat
  assumes "n < 4294967296"
  shows "n mod 256 + 256 * (n div 256 mod 256) + 65536 * (n div 65536 mod 256)
           + 16777216 * (n div 16777216 mod 256) = n"
proof -
  define a where "a = n div 256"
  define b where "b = a div 256"
  define c where "c = b div 256"
  have quot: "n div 65536 = b" "n div 16777216 = c"
    by (simp_all add: a_def b_def c_def flip: div_mult2_eq)
  have "c < 256" using assms by (simp add: a_def b_def c_def flip: div_mult2_eq)
  moreover have "n = 256 * a + n mod 256" "a = 256 * b + a mod 256" "b = 256 * c + b mod 256"
    by (simp_all add: a_def b_def c_def)
  ultimately show ?thesis unfolding quot a_def [symmetric] by simp
qed

lemma le32_of_bytes [simp]: "le32_of (le32_bytes w @ rest) = w"
proof -
  have "unat w < 4294967296" using unsigned_less [of w] by simp
  note digits = base256_digits [OF this]
  have "le32_of (le32_bytes w @ rest) = of_nat (unat w mod 256 + 256 * (unat w div 256 mod 256)
      + 65536 * (unat w div 65536 mod 256) + 16777216 * (unat w div 16777216 mod 256))"
    by (simp add: le32_of_def le32_bytes_def byte_def numeral_2_eq_2 numeral_3_eq_3
        del: of_nat_add of_nat_mult)
  also have "\<dots> = w" unfolding digits by simp
  finally show ?thesis .
qed

section \<open>An address that is not in use\<close>

definition fresh_addr :: "(addr, 'v) fmap \<Rightarrow> addr" where
  "fresh_addr m = Suc (Max (insert 0 (fset (fmdom m))))"

lemma fresh_addr_unused [simp]: "fmlookup m (fresh_addr m) = None"
proof (rule ccontr)
  assume "fmlookup m (fresh_addr m) \<noteq> None"
  then have "fresh_addr m \<in> insert 0 (fset (fmdom m))" by (auto intro: fmdomI)
  then have "fresh_addr m \<le> Max (insert 0 (fset (fmdom m)))" by (intro Max_ge) simp_all
  then show False by (simp add: fresh_addr_def)
qed

end
