(* ===== verification/Event_Queue.thy ===== *)
theory Event_Queue
  imports C_Prelude
begin

text \<open>
  The event queue of \<open>services/helpers/helpers_event_queue.c\<close>: a singly linked list with
  head and tail pointers, on an explicit heap of queue structures and queue entries.  The
  result of \<open>malloc\<close> is an argument.  The section on the interface states what the
  queue promises as a locale (a FIFO sequence of entry pointers whose payloads never
  change), proves that every sequence of operations answers as the abstract sequence does,
  and interprets it on the pointer structure.
\<close>

section \<open>Data\<close>

text \<open>\<open>struct inotify_event\<close> of \<open><sys/inotify.h>\<close>, with its flexible name array.\<close>

record inotify_event =
  ie_wd :: u32
  ie_mask :: u32
  ie_cookie :: u32
  ie_len :: u32
  ie_name :: string

record queue_entry =
  next_ptr :: "addr option"
  inot_ev :: inotify_event

record queue_struct =
  head :: "addr option"
  tail :: "addr option"

record qheap =
  qstructs :: "(addr, queue_struct) fmap"
  qentries :: "(addr, queue_entry) fmap"

definition queue_at :: "addr option \<Rightarrow> qheap \<Rightarrow> (addr \<times> queue_struct) outcome" where
  "queue_at q h =
     (case q of None \<Rightarrow> Fault Null_Deref
      | Some a \<Rightarrow> (case fmlookup (qstructs h) a of
          None \<Rightarrow> Fault Use_After_Free | Some s \<Rightarrow> Ret (a, s)))"

definition entry_at :: "addr option \<Rightarrow> qheap \<Rightarrow> (addr \<times> queue_entry) outcome" where
  "entry_at p h =
     (case p of None \<Rightarrow> Fault Null_Deref
      | Some a \<Rightarrow> (case fmlookup (qentries h) a of
          None \<Rightarrow> Fault Use_After_Free | Some e \<Rightarrow> Ret (a, e)))"

definition put_queue :: "addr \<Rightarrow> queue_struct \<Rightarrow> qheap \<Rightarrow> qheap" where
  "put_queue a s h = h\<lparr>qstructs := fmupd a s (qstructs h)\<rparr>"

definition put_entry :: "addr \<Rightarrow> queue_entry \<Rightarrow> qheap \<Rightarrow> qheap" where
  "put_entry a e h = h\<lparr>qentries := fmupd a e (qentries h)\<rparr>"

definition free_entry :: "addr \<Rightarrow> qheap \<Rightarrow> qheap" where
  "free_entry a h = h\<lparr>qentries := fmdrop a (qentries h)\<rparr>"

text \<open>\<open>p->next_ptr = n\<close>\<close>

definition set_next :: "addr option \<Rightarrow> addr option \<Rightarrow> qheap \<Rightarrow> qheap outcome" where
  "set_next p n h =
     obind (entry_at p h) (\<lambda>(a, e). Ret (put_entry a (e\<lparr>next_ptr := n\<rparr>) h))"

section \<open>Operations\<close>

definition queue_empty :: "addr option \<Rightarrow> qheap \<Rightarrow> bool outcome" where
  "queue_empty q h = obind (queue_at q h) (\<lambda>(a, s). Ret (head s = None))"

text \<open>\<open>m\<close> is what \<open>malloc\<close> returns; when it fails the process exits with \<open>-2\<close>.\<close>

definition queue_create :: "addr option \<Rightarrow> qheap \<Rightarrow> (addr \<times> qheap) outcome" where
  "queue_create m h =
     (case m of None \<Rightarrow> Exit (-2)
      | Some a \<Rightarrow> Ret (a, put_queue a \<lparr>head = None, tail = None\<rparr> h))"

definition queue_enqueue :: "addr option \<Rightarrow> addr option \<Rightarrow> qheap \<Rightarrow> qheap outcome" where
  "queue_enqueue d q h =
     obind (set_next d None h) (\<lambda>h1.
     obind (queue_at q h1) (\<lambda>(qa, s).
       if tail s \<noteq> None
       then obind (set_next (tail s) d h1) (\<lambda>h2. Ret (put_queue qa (s\<lparr>tail := d\<rparr>) h2))
       else Ret (put_queue qa (s\<lparr>head := d, tail := d\<rparr>) h1)))"

definition queue_dequeue :: "addr option \<Rightarrow> qheap \<Rightarrow> (addr option \<times> qheap) outcome" where
  "queue_dequeue q h =
     obind (queue_at q h) (\<lambda>(qa, s).
       case head s of None \<Rightarrow> Ret (None, h)
       | Some first \<Rightarrow>
           obind (entry_at (Some first) h) (\<lambda>(_, e).
             let s1 = s\<lparr>head := next_ptr e\<rparr>;
                 s2 = (if head s1 = None then s1\<lparr>tail := None\<rparr> else s1)
             in obind (set_next (Some first) None (put_queue qa s2 h))
                  (\<lambda>h1. Ret (Some first, h1))))"

lemma fcard_fmdrop_less:
  assumes "fmlookup m a = Some e"
  shows "fcard (fmdom (fmdrop a (fmupd a x m))) < fcard (fmdom m)"
proof -
  have "fmdom (fmdrop a (fmupd a x m)) = fmdom m |-| {|a|}" by auto
  moreover from assms have "a |\<in>| fmdom m" by (rule fmdomI)
  ultimately show ?thesis by (simp only: fcard_fminus1_less)
qed

text \<open>The loop of \<open>queue_destroy\<close>: unlink the head, clear its link, free it.\<close>

function destroy_loop :: "addr \<Rightarrow> qheap \<Rightarrow> qheap outcome" where
  "destroy_loop qa h =
     (case fmlookup (qstructs h) qa of None \<Rightarrow> Fault Use_After_Free
      | Some s \<Rightarrow>
         (case head s of None \<Rightarrow> Ret h
          | Some nxt \<Rightarrow>
             (case fmlookup (qentries h) nxt of None \<Rightarrow> Fault Use_After_Free
              | Some e \<Rightarrow>
                  destroy_loop qa
                    (free_entry nxt
                      (put_entry nxt (e\<lparr>next_ptr := None\<rparr>)
                        (put_queue qa (s\<lparr>head := next_ptr e\<rparr>) h))))))"
  by pat_completeness auto

termination
  by (relation "measure (\<lambda>(qa, h). fcard (fmdom (qentries h)))")
     (auto simp: free_entry_def put_entry_def put_queue_def
           intro!: fcard_fmdrop_less simp del: fmdom_drop fmdrop_fmupd_same)

declare destroy_loop.simps [simp del]

definition queue_destroy :: "addr option \<Rightarrow> qheap \<Rightarrow> qheap outcome" where
  "queue_destroy q h =
     (case q of None \<Rightarrow> Ret h
      | Some qa \<Rightarrow>
          obind (destroy_loop qa h) (\<lambda>h1.
          obind (queue_at q h1) (\<lambda>(_, s).
            let h2 = put_queue qa (s\<lparr>head := None, tail := None\<rparr>) h1
            in Ret (h2\<lparr>qstructs := fmdrop qa (qstructs h2)\<rparr>))))"


section \<open>The list a queue represents\<close>

text \<open>
  \<open>chain m p as\<close>: following \<open>next_ptr\<close> from \<open>p\<close> visits the addresses \<open>as\<close> and ends in
  \<open>NULL\<close>.  \<open>queue_rep h qa as\<close>: the structure at \<open>qa\<close> is a well-formed queue of the
  entries \<open>as\<close>.
\<close>

fun chain :: "(addr, queue_entry) fmap \<Rightarrow> addr option \<Rightarrow> addr list \<Rightarrow> bool" where
  "chain m p [] \<longleftrightarrow> p = None"
| "chain m p (a # as) \<longleftrightarrow>
     p = Some a \<and>
     (case fmlookup m a of None \<Rightarrow> False | Some e \<Rightarrow> chain m (next_ptr e) as)"

definition queue_rep :: "qheap \<Rightarrow> addr \<Rightarrow> addr list \<Rightarrow> bool" where
  "queue_rep h qa as \<longleftrightarrow>
     (case fmlookup (qstructs h) qa of None \<Rightarrow> False
      | Some s \<Rightarrow> chain (qentries h) (head s) as \<and> distinct as \<and>
                  tail s = (if as = [] then None else Some (last as)))"

definition payload :: "qheap \<Rightarrow> addr \<Rightarrow> inotify_event option" where
  "payload h a = map_option inot_ev (fmlookup (qentries h) a)"

lemma chain_live: "chain m p as \<Longrightarrow> a \<in> set as \<Longrightarrow> \<exists>e. fmlookup m a = Some e"
  by (induction m p as rule: chain.induct) (auto split: option.splits)

lemma chain_upd_other: "a \<notin> set as \<Longrightarrow> chain (fmupd a e m) p as = chain m p as"
  by (induction m p as rule: chain.induct) (auto split: option.splits)

lemma chain_drop_other: "a \<notin> set as \<Longrightarrow> chain (fmdrop a m) p as = chain m p as"
  by (induction m p as rule: chain.induct) (auto split: option.splits)

text \<open>Appending an entry: the last link is redirected to the new entry.\<close>

lemma chain_snoc:
  assumes "chain m p (as @ [z])" and "distinct (as @ [z])" and "d \<notin> set (as @ [z])"
    and "fmlookup m z = Some e" and "fmlookup m d = Some e'" and "next_ptr e' = None"
  shows "chain (fmupd z (e\<lparr>next_ptr := Some d\<rparr>) m) p (as @ [z, d])"
  using assms
proof (induction as arbitrary: p)
  case Nil
  then show ?case by (auto split: option.splits)
next
  case (Cons a as)
  then show ?case by (auto split: option.splits)
qed

lemma queue_repE:
  assumes "queue_rep h qa as"
  obtains s where "fmlookup (qstructs h) qa = Some s" "chain (qentries h) (head s) as"
    "distinct as" "tail s = (if as = [] then None else Some (last as))"
  using assms by (auto simp: queue_rep_def split: option.splits)

lemma queue_rep_payload: "queue_rep h qa as \<Longrightarrow> a \<in> set as \<Longrightarrow> payload h a \<noteq> None"
  by (elim queue_repE) (auto simp: payload_def dest: chain_live)

lemmas queue_defs = queue_at_def entry_at_def put_queue_def put_entry_def set_next_def

lemma payload_set_next: "set_next p n h = Ret h' \<Longrightarrow> payload h' = payload h"
  by (auto simp: queue_defs payload_def fun_eq_iff c_simps split: option.splits)

lemma payload_put_queue [simp]: "payload (put_queue a s h) = payload h"
  by (simp add: put_queue_def payload_def fun_eq_iff)

section \<open>Correctness of the operations\<close>

lemma queue_empty_rep: "queue_rep h qa as \<Longrightarrow> queue_empty (Some qa) h = Ret (as = [])"
  by (erule queue_repE, cases as) (auto simp: queue_empty_def queue_at_def)

lemma queue_create_rep:
  "queue_create (Some a) h = Ret (a, h') \<Longrightarrow> queue_rep h' a [] \<and> payload h' = payload h"
  by (auto simp: queue_create_def queue_rep_def put_queue_def payload_def fun_eq_iff)

lemma queue_enqueue_rep:
  assumes rep: "queue_rep h qa as" and new: "d \<notin> set as" and live: "payload h d = Some ev"
  shows "\<exists>h'. queue_enqueue (Some d) (Some qa) h = Ret h' \<and> queue_rep h' qa (as @ [d])
               \<and> payload h' = payload h"
proof -
  obtain s where s: "fmlookup (qstructs h) qa = Some s" "chain (qentries h) (head s) as"
    "distinct as" "tail s = (if as = [] then None else Some (last as))"
    using rep by (rule queue_repE)
  obtain e where e: "fmlookup (qentries h) d = Some e" using live by (auto simp: payload_def)
  define h1 where "h1 = put_entry d (e\<lparr>next_ptr := None\<rparr>) h"
  have set1: "set_next (Some d) None h = Ret h1"
    using e by (simp add: queue_defs h1_def)
  have c1: "chain (qentries h1) (head s) as"
    using s new by (simp add: h1_def put_entry_def chain_upd_other)
  have q1: "fmlookup (qstructs h1) qa = Some s" and d1: "fmlookup (qentries h1) d = Some (e\<lparr>next_ptr := None\<rparr>)"
    using s by (auto simp: h1_def put_entry_def)
  show ?thesis
  proof (cases as rule: rev_cases)
    case Nil
    then show ?thesis
      using s c1 q1 d1 set1 payload_set_next [OF set1]
      by (auto simp: queue_enqueue_def queue_at_def queue_rep_def put_queue_def payload_def fun_eq_iff)
  next
    case (snoc bs z)
    from snoc c1 obtain ez where ez: "fmlookup (qentries h1) z = Some ez"
      using chain_live by fastforce
    define h2 where "h2 = put_entry z (ez\<lparr>next_ptr := Some d\<rparr>) h1"
    have set2: "set_next (Some z) (Some d) h1 = Ret h2"
      using ez by (simp add: queue_defs h2_def)
    have "chain (qentries h2) (head s) (bs @ [z, d])"
      unfolding h2_def put_entry_def using c1 s(3) new d1 ez snoc
      by (simp add: chain_snoc)
    moreover have "queue_enqueue (Some d) (Some qa) h = Ret (put_queue qa (s\<lparr>tail := Some d\<rparr>) h2)"
      using set1 q1 s(4) snoc set2 by (simp add: queue_enqueue_def queue_at_def)
    ultimately show ?thesis
      using snoc s(3) new payload_set_next [OF set1] payload_set_next [OF set2]
      by (auto simp: queue_rep_def put_queue_def payload_def fun_eq_iff)
  qed
qed

lemma queue_dequeue_empty: "queue_rep h qa [] \<Longrightarrow> queue_dequeue (Some qa) h = Ret (None, h)"
  by (erule queue_repE) (auto simp: queue_dequeue_def queue_at_def)

lemma queue_dequeue_rep:
  assumes rep: "queue_rep h qa (a # as)"
  shows "\<exists>h'. queue_dequeue (Some qa) h = Ret (Some a, h') \<and> queue_rep h' qa as
               \<and> payload h' = payload h"
proof -
  obtain s where s: "fmlookup (qstructs h) qa = Some s" "chain (qentries h) (head s) (a # as)"
    "distinct (a # as)" "tail s = Some (last (a # as))"
    using rep by (rule queue_repE) auto
  then obtain e where e: "fmlookup (qentries h) a = Some e" "chain (qentries h) (next_ptr e) as"
    and hd: "head s = Some a" by (auto split: option.splits)
  then have none: "next_ptr e = None \<longleftrightarrow> as = []" by (cases as) auto
  show ?thesis
    using s e hd none
    by (auto simp: queue_dequeue_def queue_defs queue_rep_def chain_upd_other payload_def fun_eq_iff)
qed


lemma destroy_loop_frees:
  assumes "fmlookup (qstructs h) qa = Some s" and "chain (qentries h) (head s) as" and "distinct as"
  shows "\<exists>h' s'. destroy_loop qa h = Ret h'
           \<and> qentries h' = fmdrop_set (set as) (qentries h)
           \<and> qstructs h' = fmupd qa s' (qstructs h)"
  using assms
proof (induction as arbitrary: h s)
  case Nil
  then show ?case
    by (subst destroy_loop.simps) (auto intro!: exI [of _ s] fmap_ext)
next
  case (Cons a as)
  then obtain e where e: "fmlookup (qentries h) a = Some e" "chain (qentries h) (next_ptr e) as"
    and hd: "head s = Some a" by (auto split: option.splits)
  define h3 where "h3 = free_entry a (put_entry a (e\<lparr>next_ptr := None\<rparr>)
                          (put_queue qa (s\<lparr>head := next_ptr e\<rparr>) h))"
  have step: "destroy_loop qa h = destroy_loop qa h3"
    using Cons.prems(1) e hd by (subst destroy_loop.simps) (simp add: h3_def)
  have h3: "qentries h3 = fmdrop a (qentries h)"
    "qstructs h3 = fmupd qa (s\<lparr>head := next_ptr e\<rparr>) (qstructs h)"
    by (auto simp: h3_def free_entry_def put_entry_def put_queue_def fmdrop_fmupd_same)
  from Cons.prems(3) e have "chain (qentries h3) (next_ptr e) as"
    by (simp add: h3 chain_drop_other)
  with Cons.IH [of h3 "s\<lparr>head := next_ptr e\<rparr>"] Cons.prems(3) h3
  obtain h' s' where "destroy_loop qa h3 = Ret h'"
    and "qentries h' = fmdrop_set (set as) (qentries h3)"
    and "qstructs h' = fmupd qa s' (qstructs h3)" by auto
  then show ?case unfolding step
    by (intro exI [of _ h'] exI [of _ s']) (auto simp: h3 intro!: fmap_ext)
qed

text \<open>Destroying a queue frees its structure and its entries, and nothing else.\<close>

lemma queue_destroy_rep:
  assumes "queue_rep h qa as"
  shows "\<exists>h'. queue_destroy (Some qa) h = Ret h'
           \<and> qentries h' = fmdrop_set (set as) (qentries h)
           \<and> qstructs h' = fmdrop qa (qstructs h)"
proof -
  obtain s where "fmlookup (qstructs h) qa = Some s" "chain (qentries h) (head s) as" "distinct as"
    using assms by (rule queue_repE)
  from destroy_loop_frees [OF this] show ?thesis
    by (auto simp: queue_destroy_def queue_at_def put_queue_def fmdrop_fmupd_same)
qed

section \<open>The interface: a first-in first-out sequence of entries\<close>

datatype 'p qop = Enq 'p | Deq

text \<open>A run of operations, collecting what the dequeues return.\<close>

fun run_ops :: "('p \<Rightarrow> 'h \<Rightarrow> 'h outcome) \<Rightarrow> ('h \<Rightarrow> ('p option \<times> 'h) outcome) \<Rightarrow>
    'p qop list \<Rightarrow> 'h \<Rightarrow> ('p option list \<times> 'h) outcome" where
  "run_ops enq deq [] h = Ret ([], h)"
| "run_ops enq deq (Enq p # ops) h = obind (enq p h) (\<lambda>h'. run_ops enq deq ops h')"
| "run_ops enq deq (Deq # ops) h =
     obind (deq h) (\<lambda>(r, h'). obind (run_ops enq deq ops h') (\<lambda>(rs, h''). Ret (r # rs, h'')))"

fun spec_ops :: "'p qop list \<Rightarrow> 'p list \<Rightarrow> 'p option list \<times> 'p list" where
  "spec_ops [] ps = ([], ps)"
| "spec_ops (Enq p # ops) ps = spec_ops ops (ps @ [p])"
| "spec_ops (Deq # ops) ps =
     (case ps of [] \<Rightarrow> (case spec_ops ops [] of (rs, z) \<Rightarrow> (None # rs, z))
      | p # ps' \<Rightarrow> (case spec_ops ops ps' of (rs, z) \<Rightarrow> (Some p # rs, z)))"

text \<open>Operations a client may issue: it enqueues live entries that are not queued already.\<close>

fun valid_ops :: "('p \<Rightarrow> 'e option) \<Rightarrow> 'p qop list \<Rightarrow> 'p list \<Rightarrow> bool" where
  "valid_ops pay [] ps \<longleftrightarrow> True"
| "valid_ops pay (Enq p # ops) ps \<longleftrightarrow> p \<notin> set ps \<and> pay p \<noteq> None \<and> valid_ops pay ops (ps @ [p])"
| "valid_ops pay (Deq # ops) ps \<longleftrightarrow> valid_ops pay ops (case ps of [] \<Rightarrow> [] | p # ps' \<Rightarrow> ps')"

locale fifo_queue =
  fixes enq :: "'p \<Rightarrow> 'h \<Rightarrow> 'h outcome"
    and deq :: "'h \<Rightarrow> ('p option \<times> 'h) outcome"
    and isempty :: "'h \<Rightarrow> bool outcome"
    and rep :: "'h \<Rightarrow> 'p list \<Rightarrow> bool"
    and pay :: "'h \<Rightarrow> 'p \<Rightarrow> 'e option"
  assumes enq_rep: "rep h ps \<Longrightarrow> p \<notin> set ps \<Longrightarrow> pay h p = Some e \<Longrightarrow>
      \<exists>h'. enq p h = Ret h' \<and> rep h' (ps @ [p]) \<and> pay h' = pay h"
    and deq_nil: "rep h [] \<Longrightarrow> deq h = Ret (None, h)"
    and deq_cons: "rep h (p # ps) \<Longrightarrow> \<exists>h'. deq h = Ret (Some p, h') \<and> rep h' ps \<and> pay h' = pay h"
    and isempty_rep: "rep h ps \<Longrightarrow> isempty h = Ret (ps = [])"
begin

lemma run_ops_spec:
  assumes "rep h ps" and "valid_ops (pay h) ops ps"
  shows "\<exists>h'. run_ops enq deq ops h = Ret (fst (spec_ops ops ps), h')
           \<and> rep h' (snd (spec_ops ops ps)) \<and> pay h' = pay h"
  using assms
proof (induction ops ps arbitrary: h rule: spec_ops.induct)
  case (1 ps)
  then show ?case by simp
next
  case (2 p ops ps)
  then obtain h1 where h1: "enq p h = Ret h1" "rep h1 (ps @ [p])" "pay h1 = pay h"
    using enq_rep [of h ps p] by auto
  with "2.prems" have "valid_ops (pay h1) ops (ps @ [p])" by simp
  from "2.IH" [OF h1(2) this] h1 show ?case by simp
next
  case (3 ops ps)
  show ?case
  proof (cases ps)
    case Nil
    with 3 deq_nil [of h] show ?thesis by (fastforce split: prod.splits)
  next
    case (Cons p ps')
    with 3 deq_cons [of h p ps'] obtain h1 where
      "deq h = Ret (Some p, h1)" "rep h1 ps'" "pay h1 = pay h" by auto
    with 3 Cons show ?thesis by (fastforce split: prod.splits)
  qed
qed

lemma isempty_iff_deq_None:
  "rep h ps \<Longrightarrow> isempty h = Ret True \<longleftrightarrow> deq h = Ret (None, h)"
  using deq_nil [of h] deq_cons [of h] isempty_rep [of h ps] by (cases ps) fastforce+

end

interpretation evq: fifo_queue
  "\<lambda>p. queue_enqueue (Some p) (Some qa)" "queue_dequeue (Some qa)" "queue_empty (Some qa)"
  "\<lambda>h ps. queue_rep h qa ps" payload for qa
  by unfold_locales
     (auto intro: queue_enqueue_rep queue_dequeue_rep queue_dequeue_empty queue_empty_rep)

section \<open>Properties\<close>

text \<open>
  Claim C6: the pointer queue is a first-in first-out queue.  From a well-formed queue of the
  entries \<open>ps\<close>, any run of enqueues (of live entries that are not queued) and dequeues ends
  without a fault, answers every dequeue as the list does, leaves a well-formed queue of the
  remaining entries, and changes no event.
\<close>

theorem queue_ops_fifo:
  assumes "queue_rep h qa ps" and "valid_ops (payload h) ops ps"
  shows "\<exists>h'. run_ops (\<lambda>p. queue_enqueue (Some p) (Some qa)) (queue_dequeue (Some qa)) ops h
             = Ret (fst (spec_ops ops ps), h')
           \<and> queue_rep h' qa (snd (spec_ops ops ps)) \<and> payload h' = payload h"
  using assms by (rule evq.run_ops_spec)

definition sample_event :: "nat \<Rightarrow> inotify_event" where
  "sample_event n = \<lparr>ie_wd = of_nat n, ie_mask = 256, ie_cookie = 0, ie_len = 0, ie_name = []\<rparr>"

definition sample_heap :: qheap where
  "sample_heap =
     \<lparr>qstructs = fmupd 1 \<lparr>head = None, tail = None\<rparr> fmempty,
      qentries = fmupd 10 \<lparr>next_ptr = None, inot_ev = sample_event 1\<rparr>
                   (fmupd 20 \<lparr>next_ptr = Some 10, inot_ev = sample_event 2\<rparr> fmempty)\<rparr>"

theorem queue_ops_fifo_witness:
  "\<exists>h'. run_ops (\<lambda>p. queue_enqueue (Some p) (Some 1)) (queue_dequeue (Some 1))
           [Enq 20, Enq 10, Deq, Deq, Deq] sample_heap = Ret ([Some 20, Some 10, None], h')
        \<and> queue_rep h' 1 []"
proof -
  have "queue_rep sample_heap 1 []"
    by (simp add: queue_rep_def sample_heap_def)
  moreover have "valid_ops (payload sample_heap) [Enq 20, Enq 10, Deq, Deq, Deq] []"
    by (simp add: payload_def sample_heap_def)
  ultimately show ?thesis using queue_ops_fifo [of sample_heap 1 "[]" "[Enq 20, Enq 10, Deq, Deq, Deq]"]
    by auto
qed

text \<open>
  Claim C12: destroying a queue terminates without touching freed memory, frees its structure
  and exactly its entries, and leaves every other entry and queue as it was.
\<close>

theorem queue_destroy_frees:
  assumes "queue_rep h qa as"
  shows "\<exists>h'. queue_destroy (Some qa) h = Ret h'
           \<and> qentries h' = fmdrop_set (set as) (qentries h)
           \<and> qstructs h' = fmdrop qa (qstructs h)"
  using assms by (rule queue_destroy_rep)

theorem queue_destroy_frees_witness:
  "\<exists>h'. queue_destroy (Some 1) (sample_heap\<lparr>qstructs := fmupd 1 \<lparr>head = Some 20, tail = Some 10\<rparr> fmempty\<rparr>)
          = Ret h' \<and> qentries h' = fmempty \<and> qstructs h' = fmempty"
proof -
  let ?h = "sample_heap\<lparr>qstructs := fmupd 1 \<lparr>head = Some 20, tail = Some 10\<rparr> fmempty\<rparr>"
  have "queue_rep ?h 1 [20, 10]" by (simp add: queue_rep_def sample_heap_def)
  from queue_destroy_frees [OF this] obtain h' where "queue_destroy (Some 1) ?h = Ret h'"
    "qentries h' = fmdrop_set {20, 10} (qentries ?h)" "qstructs h' = fmdrop 1 (qstructs ?h)" by auto
  moreover have "fmdrop_set {20, 10} (qentries ?h) = fmempty" and "fmdrop 1 (qstructs ?h) = fmempty"
    by (auto simp: sample_heap_def intro!: fmap_ext)
  ultimately show ?thesis by auto
qed

end
