(* ===== verification/Hash_Table.thy ===== *)
theory Hash_Table
  imports C_Prelude "HOL-Library.Multiset"
begin

text \<open>
  The hash table of \<open>services/helpers/helpers_hash_table.c\<close>: the key function, items on a
  heap linked by \<open>previous\<close> and \<open>next\<close>, the table of item pointers, insertion, search and
  release.  The value block of an item holds exactly the bytes of the inserted string, as
  \<open>malloc(value_len)\<close> leaves no room for a terminator; what a string read of the block sees
  beyond its end is the parameter \<open>over\<close> (the bytes up to the next zero byte in memory).
\<close>

section \<open>Keys\<close>

definition HASH_ITEM_MAX_SIZE_STR :: nat where "HASH_ITEM_MAX_SIZE_STR = 512"
definition HASH_KEY_MAX_LEN :: nat where "HASH_KEY_MAX_LEN = 10000"
definition HASH_TABLE_MAX :: int where "HASH_TABLE_MAX = 10000"

text \<open>A \<open>char\<close> is signed: it is sign-extended when it is added to an \<open>unsigned int\<close>.\<close>

definition char_uint :: "char \<Rightarrow> u32" where
  "char_uint c = signed_take_bit 7 (of_char c)"

text \<open>\<open>while (*str++) hash += *str;\<close> the character added is the one after the one tested.\<close>

fun hash_loop :: "string \<Rightarrow> u32 \<Rightarrow> u32" where
  "hash_loop [] hash = hash"
| "hash_loop (c # str) hash =
     hash_loop str (hash + char_uint (case str of [] \<Rightarrow> NUL | d # _ \<Rightarrow> d))"

definition hash_key_generator :: "string option \<Rightarrow> u32" where
  "hash_key_generator str =
     (case str of None \<Rightarrow> 0
      | Some s \<Rightarrow> hash_loop s 0 mod of_nat HASH_KEY_MAX_LEN)"

section \<open>Items and tables\<close>

record hash_item =
  hi_key :: u32
  hi_value :: string
  hi_previous :: "addr option"
  hi_next :: "addr option"

type_synonym hheap = "(addr, hash_item) fmap"

text \<open>\<open>table\<close> is the array of \<open>size\<close> item pointers; indices from \<open>size\<close> on do not exist.\<close>

record hash_table =
  ht_table :: "nat \<Rightarrow> addr option"
  ht_node :: "addr option"
  ht_size :: int
  ht_count :: int

text \<open>The string a reader of the item at \<open>a\<close> sees.\<close>

definition item_str :: "(addr \<Rightarrow> string) \<Rightarrow> addr \<Rightarrow> hash_item \<Rightarrow> string" where
  "item_str over a it = hi_value it @ over a"

text \<open>
  \<open>m\<close> is the address \<open>malloc\<close> gives the item, \<^term>\<open>None\<close> when there is no memory (the
  result is not tested before \<open>memset\<close>).  A key of 0 or 1 is refused after the
  allocation, which is not released.
\<close>

definition hash_item_create ::
  "addr option \<Rightarrow> string option \<Rightarrow> hheap \<Rightarrow> (addr option \<times> hheap) outcome" where
  "hash_item_create m value h =
     (case value of None \<Rightarrow> Ret (None, h)
      | Some v \<Rightarrow>
         if length v > HASH_ITEM_MAX_SIZE_STR then Ret (None, h)
         else (case m of None \<Rightarrow> Fault Null_Deref
               | Some a \<Rightarrow>
                  let key = hash_key_generator value;
                      it = \<lparr>hi_key = 0, hi_value = v, hi_previous = None, hi_next = None\<rparr>
                  in if unat key \<le> 1 then Ret (None, fmupd a it h)
                     else Ret (Some a, fmupd a (it\<lparr>hi_key := key\<rparr>) h)))"

text \<open>\<open>count\<close> is not initialised: its start value \<open>garbage\<close> is whatever the block held.\<close>

definition hash_table_create :: "int \<Rightarrow> int \<Rightarrow> hash_table option" where
  "hash_table_create garbage sz =
     (if sz \<le> 0 \<or> sz > HASH_TABLE_MAX then None
      else Some \<lparr>ht_table = (\<lambda>_. None), ht_node = None, ht_size = sz, ht_count = garbage\<rparr>)"

definition table_read :: "hash_table \<Rightarrow> u32 \<Rightarrow> addr option outcome" where
  "table_read t key =
     (if int (unat key) < ht_size t then Ret (ht_table t (unat key)) else Fault Oob_Read)"

definition hash_table_get_hi_by_key :: "hash_table option \<Rightarrow> u32 \<Rightarrow> addr option outcome" where
  "hash_table_get_hi_by_key this key =
     (case this of None \<Rightarrow> Ret None
      | Some t \<Rightarrow> if key = 0 then Ret None else table_read t key)"

definition hash_table_get_hi_by_val :: "hash_table option \<Rightarrow> string option \<Rightarrow> addr option outcome" where
  "hash_table_get_hi_by_val this value =
     (case this of None \<Rightarrow> Ret None
      | Some t \<Rightarrow> if value = None then Ret None else table_read t (hash_key_generator value))"

definition hash_table_search_item ::
  "hash_table option \<Rightarrow> u32 \<Rightarrow> string option \<Rightarrow> addr option outcome" where
  "hash_table_search_item this key value =
     (if this = None then Ret None
      else if key = 0 \<and> value \<noteq> None then hash_table_get_hi_by_val this value
      else if key \<noteq> 0 \<and> value = None then hash_table_get_hi_by_key this key
      else Ret None)"

definition item_at :: "addr option \<Rightarrow> hheap \<Rightarrow> (addr \<times> hash_item) outcome" where
  "item_at p h =
     (case p of None \<Rightarrow> Fault Null_Deref
      | Some a \<Rightarrow> (case fmlookup h a of None \<Rightarrow> Fault Use_After_Free | Some it \<Rightarrow> Ret (a, it)))"

text \<open>The branch of the insertion that finds its slot empty.\<close>

definition link_item :: "hash_table \<Rightarrow> u32 \<Rightarrow> addr \<Rightarrow> hheap \<Rightarrow> (hash_table \<times> hheap) outcome" where
  "link_item t key item h =
     (let t1 = t\<lparr>ht_table := (ht_table t)(unat key := Some item)\<rparr> in
      case ht_node t1 of
        None \<Rightarrow> Ret (t1\<lparr>ht_node := Some item, ht_count := ht_count t1 + 1\<rparr>, h)
      | Some n \<Rightarrow>
          obind (item_at (Some n) h) (\<lambda>(_, nit).
            let h1 = fmupd n (nit\<lparr>hi_next := Some item\<rparr>) h in
            obind (item_at (Some item) h1) (\<lambda>(_, it).
              Ret (t1\<lparr>ht_node := Some item, ht_count := ht_count t1 + 1\<rparr>,
                   fmupd item (it\<lparr>hi_previous := Some n\<rparr>) h1))))"

definition hash_table_insert_item ::
  "(addr \<Rightarrow> string) \<Rightarrow> addr option \<Rightarrow> hash_table option \<Rightarrow> string option \<Rightarrow> hheap \<Rightarrow>
     (nat \<times> hash_table option \<times> hheap) outcome" where
  "hash_table_insert_item over m this value h =
     (case this of None \<Rightarrow> Ret (2, this, h)
      | Some t \<Rightarrow>
        if value = None then Ret (2, this, h)
        else if ht_count t = ht_size t then Ret (1, this, h)
        else
          let key = hash_key_generator value in
          if key = 0 then Ret (1, this, h)
          else
            obind (hash_item_create m value h) (\<lambda>(item, h1).
              case item of None \<Rightarrow> Ret (1, this, h1)
              | Some a \<Rightarrow>
                obind (table_read t key) (\<lambda>head.
                  case head of
                    None \<Rightarrow> obind (link_item t key a h1) (\<lambda>(t', h2). Ret (0, Some t', h2))
                  | Some b \<Rightarrow>
                      obind (item_at (Some b) h1) (\<lambda>(_, hit).
                      obind (item_at (Some a) h1) (\<lambda>(_, it).
                        if hi_key hit = key then
                          let hv = item_str over b hit in
                          if strncmp_eq hv (item_str over a it) (length hv)
                          then Ret (0, this, h1) else Ret (2, this, h1)
                        else Ret (0, this, h1))))))"

text \<open>\<open>for (i = 0; i < size; i++)\<close>: release the item of every occupied slot.\<close>

function free_slots :: "hash_table \<Rightarrow> nat \<Rightarrow> hheap \<Rightarrow> hheap outcome" where
  "free_slots t i h =
     (if int i < ht_size t then
        (case ht_table t i of None \<Rightarrow> free_slots t (Suc i) h
         | Some a \<Rightarrow>
            (case fmlookup h a of None \<Rightarrow> Fault Use_After_Free
             | Some it \<Rightarrow> free_slots t (Suc i) (fmdrop a h)))
      else Ret h)"
  by pat_completeness auto
termination
  by (relation "measure (\<lambda>(t, i, h). nat (ht_size t - int i))") auto

declare free_slots.simps [simp del]

definition hash_table_free :: "hash_table option \<Rightarrow> hheap \<Rightarrow> hheap outcome" where
  "hash_table_free this h =
     (case this of None \<Rightarrow> Fault Null_Deref | Some t \<Rightarrow> free_slots t 0 h)"


section \<open>The key function\<close>

text \<open>The loop adds up all characters but the first one (the terminator adds 0).\<close>

lemma char_uint_NUL [simp]: "char_uint NUL = 0"
  by (simp add: char_uint_def)

lemma hash_loop_sum: "hash_loop s acc = acc + sum_list (map char_uint (tl s))"
proof (induction s acc rule: hash_loop.induct)
  case (1 acc)
  then show ?case by simp
next
  case (2 c str acc)
  then show ?case by (cases str) (simp_all add: add.assoc)
qed

lemma hash_key_sum:
  "hash_key_generator (Some s) = sum_list (map char_uint (tl s)) mod 10000"
  by (simp add: hash_key_generator_def hash_loop_sum HASH_KEY_MAX_LEN_def)

lemma hash_key_bound: "unat (hash_key_generator v) < 10000"
proof (cases v)
  case None
  then show ?thesis by (simp add: hash_key_generator_def)
next
  case (Some s)
  have "unat (x mod 10000 :: u32) < 10000" for x
    by (simp add: unat_mod)
  then show ?thesis by (simp add: Some hash_key_sum)
qed

lemma sum_list_map_mset_cong:
  fixes f :: "'a \<Rightarrow> 'b::comm_monoid_add"
  assumes "mset xs = mset ys"
  shows "sum_list (map f xs) = sum_list (map f ys)"
  using assms by (metis mset_map sum_mset_sum_list)

lemma hash_key_anagram:
  "mset (tl v) = mset (tl w) \<Longrightarrow> hash_key_generator (Some v) = hash_key_generator (Some w)"
  using sum_list_map_mset_cong [of "tl v" "tl w" char_uint] by (simp add: hash_key_sum)

section \<open>Well-formed tables\<close>

text \<open>
  \<open>node_chain h p as\<close>: following \<open>previous\<close> from \<open>p\<close> visits \<open>as\<close> and ends in \<open>NULL\<close>.
  \<open>item_ok\<close>: what insertion establishes of an item.  \<open>ht_inv t h as\<close>: the table is
  well formed and \<open>as\<close> are its items, the newest first.
\<close>

fun node_chain :: "hheap \<Rightarrow> addr option \<Rightarrow> addr list \<Rightarrow> bool" where
  "node_chain h p [] \<longleftrightarrow> p = None"
| "node_chain h p (a # as) \<longleftrightarrow>
     p = Some a \<and>
     (case fmlookup h a of None \<Rightarrow> False | Some it \<Rightarrow> node_chain h (hi_previous it) as)"

definition item_ok :: "int \<Rightarrow> hash_item \<Rightarrow> bool" where
  "item_ok sz it \<longleftrightarrow>
     hi_key it = hash_key_generator (Some (hi_value it)) \<and> 1 < unat (hi_key it) \<and>
     unat (hi_key it) < nat sz \<and> nul_free (hi_value it) \<and>
     length (hi_value it) \<le> HASH_ITEM_MAX_SIZE_STR"

lemma item_ok_links [simp]:
  "item_ok sz (it\<lparr>hi_next := n\<rparr>) = item_ok sz it"
  "item_ok sz (it\<lparr>hi_previous := n\<rparr>) = item_ok sz it"
  by (simp_all add: item_ok_def)

definition key_of :: "hheap \<Rightarrow> addr \<Rightarrow> nat" where
  "key_of h a = (case fmlookup h a of None \<Rightarrow> 0 | Some it \<Rightarrow> unat (hi_key it))"

definition value_of :: "hheap \<Rightarrow> addr \<Rightarrow> string" where
  "value_of h a = (case fmlookup h a of None \<Rightarrow> [] | Some it \<Rightarrow> hi_value it)"

definition items_ok :: "int \<Rightarrow> hheap \<Rightarrow> addr list \<Rightarrow> bool" where
  "items_ok sz h as \<longleftrightarrow>
     (\<forall>a \<in> set as. case fmlookup h a of None \<Rightarrow> False | Some it \<Rightarrow> item_ok sz it)"

definition ht_inv :: "hash_table \<Rightarrow> hheap \<Rightarrow> addr list \<Rightarrow> bool" where
  "ht_inv t h as \<longleftrightarrow>
     0 < ht_size t \<and> ht_size t \<le> HASH_TABLE_MAX \<and>
     node_chain h (ht_node t) as \<and> distinct as \<and> ht_count t = int (length as) \<and>
     items_ok (ht_size t) h as \<and>
     (\<forall>k a. ht_table t k = Some a \<longleftrightarrow> a \<in> set as \<and> key_of h a = k)"

text \<open>The map from keys to strings that the table stands for.\<close>

definition ht_abs :: "hash_table \<Rightarrow> hheap \<Rightarrow> nat \<rightharpoonup> string" where
  "ht_abs t h k = map_option (value_of h) (ht_table t k)"

lemma ht_inv_create: "hash_table_create 0 sz = Some t \<Longrightarrow> ht_inv t h []"
  by (auto simp: hash_table_create_def ht_inv_def items_ok_def split: if_splits)

lemma ht_inv_item:
  "ht_inv t h as \<Longrightarrow> a \<in> set as \<Longrightarrow> \<exists>it. fmlookup h a = Some it \<and> item_ok (ht_size t) it"
  by (auto simp: ht_inv_def items_ok_def split: option.splits)

lemma ht_inv_table:
  "ht_inv t h as \<Longrightarrow> ht_table t k = Some a \<longleftrightarrow> a \<in> set as \<and> key_of h a = k"
  by (simp add: ht_inv_def)

lemma ht_inv_key_inj:
  "ht_inv t h as \<Longrightarrow> a \<in> set as \<Longrightarrow> b \<in> set as \<Longrightarrow> key_of h a = key_of h b \<Longrightarrow> a = b"
  by (metis ht_inv_table option.inject)

text \<open>Keys 0 and 1 are never used, so the table can never be full.\<close>

lemma ht_inv_count_bound:
  assumes "ht_inv t h as"
  shows "ht_count t < ht_size t"
proof -
  have "key_of h ` set as \<subseteq> {1..<nat (ht_size t)}"
  proof
    fix k assume "k \<in> key_of h ` set as"
    then obtain a where a: "a \<in> set as" "k = key_of h a" by blast
    with ht_inv_item [OF assms a(1)] show "k \<in> {1..<nat (ht_size t)}"
      by (auto simp: key_of_def item_ok_def)
  qed
  moreover have "inj_on (key_of h) (set as)"
    using ht_inv_key_inj [OF assms] by (auto simp: inj_on_def)
  ultimately have le: "card (set as) \<le> card {1..<nat (ht_size t)}"
    by (metis card_image card_mono finite_atLeastLessThan)
  have "card (set as) = length as" "ht_count t = int (length as)" "0 < ht_size t"
    using assms by (simp_all add: ht_inv_def distinct_card)
  with le show ?thesis by simp
qed

lemma node_chain_upd:
  assumes "node_chain h p as" and "fmlookup h a = Some y" and "hi_previous y = hi_previous x"
  shows "node_chain (fmupd a x h) p as"
  using assms(1)
proof (induction as arbitrary: p)
  case Nil
  then show ?case by simp
next
  case (Cons b bs)
  then show ?case using assms(2,3) by (cases "b = a") (auto split: option.splits)
qed

lemma node_chain_upd_other [simp]:
  "a \<notin> set as \<Longrightarrow> node_chain (fmupd a x h) p as = node_chain h p as"
  by (induction h p as rule: node_chain.induct) (auto split: option.splits)


lemma table_read_ok:
  "ht_inv t h as \<Longrightarrow> unat key < nat (ht_size t) \<Longrightarrow> table_read t key = Ret (ht_table t (unat key))"
  by (simp add: table_read_def ht_inv_def zless_nat_eq_int_zless)

text \<open>
  The frame of an insertion: the strings of the items \<open>as\<close> stay, and at most the address
  \<open>a\<close> joins the heap.
\<close>

definition heap_ext :: "addr \<Rightarrow> addr list \<Rightarrow> hheap \<Rightarrow> hheap \<Rightarrow> bool" where
  "heap_ext a as h h' \<longleftrightarrow>
     (\<forall>b \<in> set as. value_of h' b = value_of h b) \<and>
     (\<forall>b. b \<noteq> a \<longrightarrow> fmlookup h b = None \<longrightarrow> fmlookup h' b = None)"

lemma heap_ext_refl [simp]: "heap_ext a as h h"
  by (simp add: heap_ext_def)

text \<open>Writes that touch no item of the table, or no key and no value, keep what it stands for.\<close>

lemma ht_inv_upd_other:
  assumes "ht_inv t h as" and "a \<notin> set as"
  shows "ht_inv t (fmupd a x h) as" and "ht_abs t (fmupd a x h) = ht_abs t h"
    and "heap_ext a as h (fmupd a x h)"
proof -
  have same: "\<And>b. b \<in> set as \<Longrightarrow> fmlookup (fmupd a x h) b = fmlookup h b"
    using assms(2) by auto
  then have keys: "\<And>b. b \<in> set as \<Longrightarrow> key_of (fmupd a x h) b = key_of h b"
    and vals: "\<And>b. b \<in> set as \<Longrightarrow> value_of (fmupd a x h) b = value_of h b"
    by (simp_all add: key_of_def value_of_def)
  show "heap_ext a as h (fmupd a x h)"
    using vals by (simp add: heap_ext_def)
  show "ht_inv t (fmupd a x h) as"
    using assms same keys by (auto simp: ht_inv_def items_ok_def)
  show "ht_abs t (fmupd a x h) = ht_abs t h"
  proof
    fix k
    show "ht_abs t (fmupd a x h) k = ht_abs t h k"
      using ht_inv_table [OF assms(1), of k] vals
      by (cases "ht_table t k") (auto simp: ht_abs_def)
  qed
qed

lemma link_item_inv:
  assumes inv: "ht_inv t h as" and new: "a \<notin> set as" and it: "fmlookup h a = Some it"
    and ok: "item_ok (ht_size t) it" and prev: "hi_previous it = None"
    and free: "ht_table t (unat (hi_key it)) = None"
  shows "\<exists>t' h'. link_item t (hi_key it) a h = Ret (t', h') \<and> ht_inv t' h' (a # as) \<and>
           ht_abs t' h' = (ht_abs t h)(unat (hi_key it) \<mapsto> hi_value it) \<and> ht_size t' = ht_size t
           \<and> value_of h' = value_of h \<and> (\<forall>b. fmlookup h b = None \<longrightarrow> fmlookup h' b = None)"
proof -
  let ?k = "unat (hi_key it)"
  define t' where "t' = t\<lparr>ht_table := (ht_table t)(?k := Some a), ht_node := Some a,
                          ht_count := ht_count t + 1\<rparr>"
  define h' where "h' = (case ht_node t of None \<Rightarrow> h
     | Some n \<Rightarrow> fmupd a (it\<lparr>hi_previous := Some n\<rparr>)
                   (fmupd n ((the (fmlookup h n))\<lparr>hi_next := Some a\<rparr>) h))"
  have chain: "node_chain h (ht_node t) as" using inv by (simp add: ht_inv_def)
  have node: "ht_node t = Some n \<Longrightarrow> n \<in> set as \<and> n \<noteq> a \<and> (\<exists>y. fmlookup h n = Some y)" for n
    using chain new by (cases as) (auto split: option.splits)
  have run: "link_item t (hi_key it) a h = Ret (t', h')"
    using node it by (auto simp: link_item_def item_at_def t'_def h'_def split: option.splits)
  have look: "fmlookup h' b = (if b = a then Some (it\<lparr>hi_previous := ht_node t\<rparr>)
      else if ht_node t = Some b then map_option (\<lambda>y. y\<lparr>hi_next := Some a\<rparr>) (fmlookup h b)
      else fmlookup h b)" for b
    using node it prev by (cases "ht_node t") (auto simp: h'_def)
  have keys: "key_of h' b = key_of h b" and vals: "value_of h' b = value_of h b" for b
    using it by (auto simp: key_of_def value_of_def look split: option.splits)
  then have vals_fun: "value_of h' = value_of h" by blast
  have ka: "key_of h a = ?k" and va: "value_of h a = hi_value it"
    using it by (simp_all add: key_of_def value_of_def)
  have fresh: "\<And>b. b \<in> set as \<Longrightarrow> key_of h b \<noteq> ?k"
    using ht_inv_table [OF inv, of ?k] free by auto
  have "node_chain h' (Some a) (a # as)"
  proof (cases "ht_node t")
    case None
    with chain show ?thesis using it prev by (cases as) (auto simp: h'_def)
  next
    case (Some n)
    with node obtain y where y: "fmlookup h n = Some y" by blast
    then have "node_chain (fmupd n (y\<lparr>hi_next := Some a\<rparr>) h) (ht_node t) as"
      using chain by (auto intro: node_chain_upd)
    with Some y new show ?thesis by (simp add: h'_def)
  qed
  moreover have "items_ok (ht_size t) h' (a # as)"
    using inv ok it by (auto simp: items_ok_def ht_inv_def look split: option.splits)
  moreover have "ht_table t' k = Some b \<longleftrightarrow> b \<in> set (a # as) \<and> key_of h' b = k" for k b
    using ht_inv_table [OF inv, of k b] fresh ka free
    by (auto simp: t'_def keys)
  ultimately have "ht_inv t' h' (a # as)"
    using inv new by (simp add: ht_inv_def t'_def)
  moreover have "ht_abs t' h' = (ht_abs t h)(?k \<mapsto> hi_value it)"
    using va by (simp add: ht_abs_def t'_def vals_fun fun_eq_iff)
  moreover have "\<forall>b. fmlookup h b = None \<longrightarrow> fmlookup h' b = None"
    using it by (simp add: look)
  ultimately show ?thesis using run vals_fun by (auto simp: t'_def)
qed


section \<open>Insertion\<close>

text \<open>
  What insertion promises: the first string of a key wins, keys 0 and 1 and strings of more
  than 512 bytes are refused.
\<close>

definition storable :: "string \<Rightarrow> bool" where
  "storable v \<longleftrightarrow> length v \<le> HASH_ITEM_MAX_SIZE_STR \<and> 1 < unat (hash_key_generator (Some v))"

definition accepts :: "(nat \<rightharpoonup> string) \<Rightarrow> string \<Rightarrow> bool" where
  "accepts m v \<longleftrightarrow> storable v \<and> m (unat (hash_key_generator (Some v))) = None"

definition insert_abs :: "(nat \<rightharpoonup> string) \<Rightarrow> string \<Rightarrow> (nat \<rightharpoonup> string)" where
  "insert_abs m v =
     (if accepts m v then m(unat (hash_key_generator (Some v)) \<mapsto> v) else m)"

lemma unat_le_1_cases: "unat (x :: u32) \<le> 1 \<longleftrightarrow> x = 0 \<or> x = 1"
proof
  assume "unat x \<le> 1"
  then have "unat x = 0 \<or> unat x = unat (1 :: u32)" by auto
  then show "x = 0 \<or> x = 1" by (metis unat_eq_zero word_unat_eq_iff)
qed auto

lemma ht_inv_not_fresh: "ht_inv t h as \<Longrightarrow> fmlookup h a = None \<Longrightarrow> a \<notin> set as"
  using ht_inv_item by fastforce

lemma hash_table_insert_refused:
  assumes inv: "ht_inv t h as" and new: "fmlookup h a = None" and no: "\<not> storable v"
  shows "\<exists>h'. hash_table_insert_item over (Some a) (Some t) (Some v) h = Ret (1, Some t, h')
           \<and> ht_inv t h' as \<and> ht_abs t h' = ht_abs t h \<and> heap_ext a as h h'"
proof -
  have full: "ht_count t \<noteq> ht_size t" using ht_inv_count_bound [OF inv] by simp
  note other = ht_inv_upd_other [OF inv ht_inv_not_fresh [OF inv new]]
  show ?thesis
    using full no inv other unat_le_1_cases [of "hash_key_generator (Some v)"]
    by (auto simp: hash_table_insert_item_def hash_item_create_def storable_def Let_def)
qed

lemma hash_table_insert_occupied:
  assumes inv: "ht_inv t h as" and new: "fmlookup h a = None" and st: "storable v"
    and key: "unat (hash_key_generator (Some v)) < nat (ht_size t)"
    and occ: "ht_table t (unat (hash_key_generator (Some v))) = Some b"
  shows "\<exists>h'. hash_table_insert_item over (Some a) (Some t) (Some v) h =
             Ret (if prefix (value_of h b @ over b) (v @ over a) then 0 else 2, Some t, h')
           \<and> ht_inv t h' as \<and> ht_abs t h' = ht_abs t h \<and> heap_ext a as h h'"
proof -
  let ?key = "hash_key_generator (Some v)"
  have full: "ht_count t \<noteq> ht_size t" using ht_inv_count_bound [OF inv] by simp
  have anew: "a \<notin> set as" using inv new by (rule ht_inv_not_fresh)
  note other = ht_inv_upd_other [OF inv anew]
  from occ have b: "b \<in> set as" "key_of h b = unat ?key" by (simp_all add: ht_inv_table [OF inv])
  with ht_inv_item [OF inv] obtain bit where bit: "fmlookup h b = Some bit" by blast
  with b have "hi_key bit = ?key" and "a \<noteq> b"
    using anew by (auto simp: key_of_def word_unat_eq_iff)
  moreover have "?key \<noteq> 0" using st by (auto simp: storable_def)
  ultimately show ?thesis
    using full st bit occ other new table_read_ok [OF inv key]
    by (auto simp: hash_table_insert_item_def hash_item_create_def storable_def Let_def
        item_at_def item_str_def value_of_def strncmp_eq_len)
qed

lemma hash_table_insert_accepted:
  assumes inv: "ht_inv t h as" and new: "fmlookup h a = None" and st: "storable v"
    and nf: "nul_free v"
    and key: "unat (hash_key_generator (Some v)) < nat (ht_size t)"
    and free: "ht_table t (unat (hash_key_generator (Some v))) = None"
  shows "\<exists>t' h'. hash_table_insert_item over (Some a) (Some t) (Some v) h = Ret (0, Some t', h')
           \<and> ht_inv t' h' (a # as) \<and> ht_size t' = ht_size t
           \<and> ht_abs t' h' = (ht_abs t h)(unat (hash_key_generator (Some v)) \<mapsto> v)
           \<and> heap_ext a as h h' \<and> value_of h' a = v"
proof -
  let ?key = "hash_key_generator (Some v)"
  define it where "it = \<lparr>hi_key = ?key, hi_value = v, hi_previous = None, hi_next = None\<rparr>"
  have full: "ht_count t \<noteq> ht_size t" using ht_inv_count_bound [OF inv] by simp
  have anew: "a \<notin> set as" using inv new by (rule ht_inv_not_fresh)
  note other = ht_inv_upd_other [OF inv anew, of it]
  have ok: "item_ok (ht_size t) it" and flds: "hi_key it = ?key" "hi_value it = v" "hi_previous it = None"
    using st nf key by (auto simp: item_ok_def it_def storable_def)
  from link_item_inv [OF other(1) anew _ ok flds(3)] free flds other(2)
  obtain t' h' where link: "link_item t ?key a (fmupd a it h) = Ret (t', h')"
    and res: "ht_inv t' h' (a # as)" "ht_size t' = ht_size t"
      "ht_abs t' h' = (ht_abs t h)(unat ?key \<mapsto> v)"
      and frame: "value_of h' = value_of (fmupd a it h)"
        "\<And>b. fmlookup (fmupd a it h) b = None \<Longrightarrow> fmlookup h' b = None" by auto
  have "heap_ext a as h h'" and "value_of h' a = v"
    using other(3) frame by (auto simp: heap_ext_def value_of_def it_def)
  have nz: "?key \<noteq> 0" using st by (auto simp: storable_def)
  have create: "hash_item_create (Some a) (Some v) h = Ret (Some a, fmupd a it h)"
    using st by (simp add: hash_item_create_def storable_def it_def Let_def)
  have "hash_table_insert_item over (Some a) (Some t) (Some v) h = Ret (0, Some t', h')"
    using full nz free table_read_ok [OF inv key] link
    by (simp add: hash_table_insert_item_def create Let_def)
  with res \<open>heap_ext a as h h'\<close> \<open>value_of h' a = v\<close> show ?thesis by blast
qed


section \<open>Release and search\<close>

lemma free_slots_from:
  assumes "ht_inv t h as" and "i \<le> nat (ht_size t)"
  shows "free_slots t i (fmdrop_set {a \<in> set as. key_of h a < i} h) = Ret (fmdrop_set (set as) h)"
  using assms(2)
proof (induction "nat (ht_size t) - i" arbitrary: i)
  case 0
  then have i: "i = nat (ht_size t)" by simp
  have "{a \<in> set as. key_of h a < i} = set as"
    using ht_inv_item [OF assms(1)] by (fastforce simp: i key_of_def item_ok_def)
  moreover have "\<not> int i < ht_size t" using i assms(1) by (simp add: ht_inv_def)
  ultimately show ?case by (simp add: free_slots.simps [of t i])
next
  case (Suc n)
  then have lt: "int i < ht_size t" by simp
  let ?D = "\<lambda>j. {a \<in> set as. key_of h a < j}"
  have IH: "free_slots t (Suc i) (fmdrop_set (?D (Suc i)) h) = Ret (fmdrop_set (set as) h)"
    using Suc by auto
  show ?case
  proof (cases "ht_table t i")
    case None
    then have "\<And>a. a \<in> set as \<Longrightarrow> key_of h a \<noteq> i"
      using ht_inv_table [OF assms(1), of i] by auto
    then have "?D i = ?D (Suc i)" by (auto simp: less_Suc_eq)
    with None lt IH show ?thesis by (simp add: free_slots.simps [of t i])
  next
    case (Some a)
    then have a: "a \<in> set as" "key_of h a = i" by (simp_all add: ht_inv_table [OF assms(1)])
    then obtain it where it: "fmlookup h a = Some it" using ht_inv_item [OF assms(1)] by blast
    have "?D (Suc i) = insert a (?D i)"
      using a ht_inv_key_inj [OF assms(1)] by (auto simp: less_Suc_eq)
    then have "fmdrop a (fmdrop_set (?D i) h) = fmdrop_set (?D (Suc i)) h"
      by (auto intro: fmap_ext)
    with Some lt it a IH show ?thesis by (simp add: free_slots.simps [of t i])
  qed
qed

lemma hash_table_free_inv:
  assumes "ht_inv t h as"
  shows "hash_table_free (Some t) h = Ret (fmdrop_set (set as) h)"
  using free_slots_from [OF assms, of 0] by (simp add: hash_table_free_def)

lemma hash_table_search_value:
  assumes "ht_inv t h as" and "ht_size t = HASH_TABLE_MAX"
  shows "hash_table_search_item (Some t) 0 (Some v)
           = Ret (ht_table t (unat (hash_key_generator (Some v))))"
  using table_read_ok [OF assms(1)] hash_key_bound [of "Some v"] assms(2)
  by (simp add: hash_table_search_item_def hash_table_get_hi_by_val_def HASH_TABLE_MAX_def)

lemma hash_table_search_key:
  assumes "ht_inv t h as" and "unat k < nat (ht_size t)" and "k \<noteq> 0"
  shows "hash_table_search_item (Some t) k None = Ret (ht_table t (unat k))"
  using table_read_ok [OF assms(1,2)] assms(3)
  by (simp add: hash_table_search_item_def hash_table_get_hi_by_key_def)

section \<open>The interface: a store in which the first string of a key wins\<close>

text \<open>
  \<open>rep s vs\<close>: the store holds the strings \<open>vs\<close>, the newest first.  The client adds a list
  of strings, each with the address its item is allocated at.
\<close>

fun ins_all :: "('m \<Rightarrow> string \<Rightarrow> 's \<Rightarrow> (nat \<times> 's) outcome) \<Rightarrow> ('m \<times> string) list \<Rightarrow> 's \<Rightarrow> 's outcome" where
  "ins_all ins [] s = Ret s"
| "ins_all ins ((m, v) # mvs) s = obind (ins m v s) (\<lambda>(rc, s'). ins_all ins mvs s')"

text \<open>The strings kept of a list: no key twice, nothing that cannot be stored.\<close>

fun kept :: "(string \<Rightarrow> nat) \<Rightarrow> (string \<Rightarrow> bool) \<Rightarrow> string list \<Rightarrow> string list \<Rightarrow> string list" where
  "kept key ok [] vs = vs"
| "kept key ok (v # rest) vs =
     kept key ok rest (if ok v \<and> key v \<notin> key ` set vs then v # vs else vs)"

locale first_wins_store =
  fixes ins :: "'m \<Rightarrow> string \<Rightarrow> 's \<Rightarrow> (nat \<times> 's) outcome"
    and key :: "string \<Rightarrow> nat"
    and ok :: "string \<Rightarrow> bool"
    and rep :: "'s \<Rightarrow> string list \<Rightarrow> bool"
    and find :: "'s \<Rightarrow> nat \<rightharpoonup> string"
    and fresh :: "'m \<Rightarrow> 's \<Rightarrow> bool"
  assumes find_rep: "rep s vs \<Longrightarrow> find s k = Some v \<longleftrightarrow> v \<in> set vs \<and> key v = k"
    and ins_rep: "rep s vs \<Longrightarrow> fresh m s \<Longrightarrow> nul_free v \<Longrightarrow>
      \<exists>rc s'. ins m v s = Ret (rc, s') \<and>
              rep s' (if ok v \<and> find s (key v) = None then v # vs else vs) \<and>
              (\<forall>m'. m' \<noteq> m \<longrightarrow> fresh m' s \<longrightarrow> fresh m' s')"
begin

lemma find_None: "rep s vs \<Longrightarrow> find s k = None \<longleftrightarrow> k \<notin> key ` set vs"
proof -
  assume "rep s vs"
  then have "find s k = None \<longleftrightarrow> (\<forall>v. \<not> (v \<in> set vs \<and> key v = k))"
    using find_rep by (metis not_None_eq)
  then show ?thesis by auto
qed

lemma rep_keys_inj: "rep s vs \<Longrightarrow> v \<in> set vs \<Longrightarrow> w \<in> set vs \<Longrightarrow> key v = key w \<Longrightarrow> v = w"
  by (metis find_rep option.inject)

lemma ins_all_rep:
  assumes "rep s vs" and "distinct (map fst mvs)" and "\<forall>(m, v) \<in> set mvs. fresh m s \<and> nul_free v"
  shows "\<exists>s'. ins_all ins mvs s = Ret s' \<and> rep s' (kept key ok (map snd mvs) vs)"
  using assms
proof (induction mvs arbitrary: s vs)
  case Nil
  then show ?case by simp
next
  case (Cons mv mvs)
  obtain m v where mv: "mv = (m, v)" by (cases mv)
  let ?vs = "if ok v \<and> key v \<notin> key ` set vs then v # vs else vs"
  from Cons.prems mv ins_rep [of s vs m v] find_None [of s vs "key v"]
  obtain rc s1 where s1: "ins m v s = Ret (rc, s1)" "rep s1 ?vs"
    "\<forall>m'. m' \<noteq> m \<longrightarrow> fresh m' s \<longrightarrow> fresh m' s1" by auto
  have "\<forall>(m', v) \<in> set mvs. fresh m' s1 \<and> nul_free v"
    using Cons.prems mv s1(3) by (force simp: image_iff)
  with Cons.IH [OF s1(2)] Cons.prems(2) s1(1) mv show ?case by auto
qed

lemma kept_superset: "set vs \<subseteq> set (kept key ok ws vs)"
proof (induction ws arbitrary: vs)
  case Nil
  then show ?case by simp
next
  case (Cons x ws)
  show ?case using Cons [of vs] Cons [of "x # vs"] by auto
qed

lemma kept_complete:
  "w \<in> set ws \<Longrightarrow> ok w \<Longrightarrow> key w \<in> key ` set (kept key ok ws vs)"
proof (induction ws arbitrary: vs)
  case Nil
  then show ?case by simp
next
  case (Cons x ws)
  let ?vs = "if ok x \<and> key x \<notin> key ` set vs then x # vs else vs"
  show ?case
  proof (cases "w = x")
    case True
    then have "key w \<in> key ` set ?vs" using Cons.prems(2) by auto
    then show ?thesis using kept_superset [of ?vs ws] by auto
  next
    case False
    then show ?thesis using Cons by simp
  qed
qed

text \<open>Every string that can be stored leaves its key behind, whoever holds it.\<close>

lemma ins_all_find:
  assumes "rep s vs" and "distinct (map fst mvs)" and "\<forall>(m, v) \<in> set mvs. fresh m s \<and> nul_free v"
    and "ins_all ins mvs s = Ret s'" and "w \<in> set (map snd mvs)" and "ok w"
  shows "find s' (key w) \<noteq> None"
proof -
  from ins_all_rep [OF assms(1-3)] assms(4) have "rep s' (kept key ok (map snd mvs) vs)" by auto
  from find_None [OF this] kept_complete [OF assms(5,6)] show ?thesis by simp
qed

end

definition key_nat :: "string \<Rightarrow> nat" where
  "key_nat v = unat (hash_key_generator (Some v))"

text \<open>The table as a store: a table of the full size and its heap.\<close>

definition store_ins ::
  "(addr \<Rightarrow> string) \<Rightarrow> addr \<Rightarrow> string \<Rightarrow> hash_table \<times> hheap \<Rightarrow> (nat \<times> hash_table \<times> hheap) outcome" where
  "store_ins over m v s =
     obind (hash_table_insert_item over (Some m) (Some (fst s)) (Some v) (snd s))
       (\<lambda>(rc, t', h'). case t' of None \<Rightarrow> Fault Null_Deref | Some t'' \<Rightarrow> Ret (rc, t'', h'))"

definition store_rep :: "hash_table \<times> hheap \<Rightarrow> string list \<Rightarrow> bool" where
  "store_rep s vs \<longleftrightarrow> (\<exists>as. ht_inv (fst s) (snd s) as \<and> ht_size (fst s) = HASH_TABLE_MAX
                            \<and> vs = map (value_of (snd s)) as)"

definition store_fresh :: "addr \<Rightarrow> hash_table \<times> hheap \<Rightarrow> bool" where
  "store_fresh m s \<longleftrightarrow> fmlookup (snd s) m = None"

lemma key_of_value:
  "ht_inv t h as \<Longrightarrow> a \<in> set as \<Longrightarrow> key_of h a = key_nat (value_of h a)"
  using ht_inv_item by (fastforce simp: key_of_def value_of_def key_nat_def item_ok_def)

lemma store_find_rep:
  "store_rep s vs \<Longrightarrow> ht_abs (fst s) (snd s) k = Some v \<longleftrightarrow> v \<in> set vs \<and> key_nat v = k"
  by (auto simp: store_rep_def ht_abs_def ht_inv_table) (metis key_of_value)+

lemma store_ins_rep:
  assumes rep: "store_rep s vs" and new: "store_fresh m s" and nf: "nul_free v"
  shows "\<exists>rc s'. store_ins over m v s = Ret (rc, s') \<and>
          store_rep s' (if storable v \<and> ht_abs (fst s) (snd s) (key_nat v) = None then v # vs else vs) \<and>
          (\<forall>m'. m' \<noteq> m \<longrightarrow> store_fresh m' s \<longrightarrow> store_fresh m' s')"
proof -
  obtain t h where s: "s = (t, h)" by (cases s)
  obtain as where inv: "ht_inv t h as" and sz: "ht_size t = HASH_TABLE_MAX"
    and vs: "vs = map (value_of h) as" using rep by (auto simp: store_rep_def s)
  have fr: "fmlookup h m = None" using new by (simp add: store_fresh_def s)
  have key: "unat (hash_key_generator (Some v)) < nat (ht_size t)"
    using hash_key_bound by (simp add: sz HASH_TABLE_MAX_def)
  have frame: "map (value_of h') as = map (value_of h) as" if "heap_ext m as h h'" for h'
    using that by (auto simp: heap_ext_def)
  consider (no) "\<not> storable v"
    | (occ) b where "storable v" "ht_table t (key_nat v) = Some b"
    | (new) "storable v" "ht_table t (key_nat v) = None" by blast
  then show ?thesis
  proof cases
    case no
    from hash_table_insert_refused [OF inv fr no, of over]
    obtain h' where r: "hash_table_insert_item over (Some m) (Some t) (Some v) h = Ret (1, Some t, h')"
      "ht_inv t h' as" "ht_abs t h' = ht_abs t h" "heap_ext m as h h'" by blast
    then have "store_rep (t, h') vs" by (auto simp: store_rep_def sz vs frame [OF r(4)])
    with r no show ?thesis by (auto simp: store_ins_def store_fresh_def s heap_ext_def)
  next
    case occ
    from hash_table_insert_occupied [OF inv fr occ(1) key, of b over] occ(2)
    obtain rc h' where r: "hash_table_insert_item over (Some m) (Some t) (Some v) h = Ret (rc, Some t, h')"
      "ht_inv t h' as" "ht_abs t h' = ht_abs t h" "heap_ext m as h h'" by (auto simp: key_nat_def)
    then have "store_rep (t, h') vs" by (auto simp: store_rep_def sz vs frame [OF r(4)])
    with r occ show ?thesis by (auto simp: store_ins_def store_fresh_def s heap_ext_def ht_abs_def)
  next
    case new
    from hash_table_insert_accepted [OF inv fr new(1) nf key, of over] new(2)
    obtain t' h' where r: "hash_table_insert_item over (Some m) (Some t) (Some v) h = Ret (0, Some t', h')"
      "ht_inv t' h' (m # as)" "ht_size t' = ht_size t" "heap_ext m as h h'" "value_of h' m = v"
      by (auto simp: key_nat_def)
    then have "store_rep (t', h') (v # vs)"
      unfolding store_rep_def using sz frame [OF r(4)] vs by (intro exI [of _ "m # as"]) simp
    with r new show ?thesis
      by (auto simp: store_ins_def store_fresh_def s heap_ext_def ht_abs_def)
  qed
qed

text \<open>Whatever is inserted, the items of a table stay where they are and keep their strings.\<close>

lemma insert_item_grows:
  assumes "ht_inv t h as" and "ht_size t = HASH_TABLE_MAX" and "fmlookup h a = None" and "nul_free v"
  shows "\<exists>rc t' h'. hash_table_insert_item over (Some a) (Some t) (Some v) h = Ret (rc, Some t', h')
     \<and> (\<exists>new. ht_inv t' h' (new @ as)) \<and> ht_size t' = HASH_TABLE_MAX
     \<and> (\<forall>b \<in> set as. value_of h' b = value_of h b)"
proof -
  have key: "unat (hash_key_generator (Some v)) < nat (ht_size t)"
    using hash_key_bound by (simp add: assms(2) HASH_TABLE_MAX_def)
  have frame: "\<forall>b \<in> set as. value_of h' b = value_of h b" if "heap_ext a as h h'" for h'
    using that by (auto simp: heap_ext_def)
  consider (no) "\<not> storable v" | (occ) b where "storable v" "ht_table t (unat (hash_key_generator (Some v))) = Some b"
    | (new) "storable v" "ht_table t (unat (hash_key_generator (Some v))) = None" by blast
  then show ?thesis
  proof cases
    case no
    from hash_table_insert_refused [OF assms(1,3) no, of over] frame assms(2) show ?thesis
      by (metis append_Nil)
  next
    case occ
    from hash_table_insert_occupied [OF assms(1,3) occ(1) key occ(2), of over] frame assms(2) show ?thesis
      by (metis append_Nil)
  next
    case new
    from hash_table_insert_accepted [OF assms(1,3) new(1) assms(4) key new(2), of over] frame assms(2) show ?thesis
      by (metis append_Cons append_Nil)
  qed
qed

interpretation ht: first_wins_store
  "store_ins over" key_nat storable store_rep "\<lambda>s. ht_abs (fst s) (snd s)" store_fresh for over
  by unfold_locales (rule store_find_rep, assumption, rule store_ins_rep)

section \<open>Properties\<close>


definition empty_table :: hash_table where
  "empty_table = \<lparr>ht_table = (\<lambda>_. None), ht_node = None, ht_size = HASH_TABLE_MAX, ht_count = 0\<rparr>"

lemma empty_table_created: "hash_table_create 0 HASH_TABLE_MAX = Some empty_table"
  by (simp add: hash_table_create_def empty_table_def HASH_TABLE_MAX_def)

lemma empty_table_inv: "ht_inv empty_table h []"
  using ht_inv_create [OF empty_table_created] .

lemma key_ab: "unat (hash_key_generator (Some ''/ab'')) = 195" "unat (hash_key_generator (Some ''/ba'')) = 195"
  by code_simp+

lemma storable_ab: "storable ''/ab''" "storable ''/ba''"
  by (simp_all add: storable_def key_ab HASH_ITEM_MAX_SIZE_STR_def)


text \<open>
  Claim C13: adding a list of strings to a fresh table keeps, newest first, the first string of
  each key among those that can be stored, and every key of a storable string is found
  afterwards, whatever the memory behind the value blocks holds.
\<close>

theorem hash_insert_list:
  assumes "distinct (map fst mvs)" and "\<forall>(m, v) \<in> set mvs. fmlookup h m = None \<and> nul_free v"
  shows "\<exists>s'. ins_all (store_ins over) mvs (empty_table, h) = Ret s'
           \<and> store_rep s' (kept key_nat storable (map snd mvs) [])
           \<and> (\<forall>w \<in> set (map snd mvs). storable w \<longrightarrow> ht_abs (fst s') (snd s') (key_nat w) \<noteq> None)"
proof -
  have rep: "store_rep (empty_table, h) []"
    using empty_table_inv by (auto simp: store_rep_def empty_table_def)
  have fr: "\<forall>(m, v) \<in> set mvs. store_fresh m (empty_table, h) \<and> nul_free v"
    using assms(2) by (simp add: store_fresh_def)
  from ht.ins_all_rep [OF rep assms(1) fr] obtain s' where
    "ins_all (store_ins over) mvs (empty_table, h) = Ret s'"
    "store_rep s' (kept key_nat storable (map snd mvs) [])" by blast
  with ht.ins_all_find [OF rep assms(1) fr] show ?thesis by blast
qed

theorem hash_insert_list_witness:
  "\<exists>s'. ins_all (store_ins (\<lambda>_. ''x'')) [(1, ''/ab''), (2, ''/ba''), (3, ''/a'')] (empty_table, fmempty) = Ret s'
        \<and> store_rep s' [''/a'', ''/ab'']"
proof -
  have a: "key_nat ''/a'' = 97" "key_nat ''/ab'' = 195" "key_nat ''/ba'' = 195"
    by (simp_all add: key_nat_def key_ab) code_simp
  then have "storable ''/a''" by (simp add: storable_def key_nat_def HASH_ITEM_MAX_SIZE_STR_def)
  with a storable_ab have "kept key_nat storable [''/ab'', ''/ba'', ''/a''] [] = [''/a'', ''/ab'']" by simp
  then show ?thesis
    using hash_insert_list [of "[(1, ''/ab''), (2, ''/ba''), (3, ''/a'')]" fmempty "\<lambda>_. ''x''"] by auto
qed




definition one_item :: hash_item where
  "one_item = \<lparr>hi_key = 195, hi_value = ''/ab'', hi_previous = None, hi_next = None\<rparr>"

definition one_table :: hash_table where
  "one_table = \<lparr>ht_table = (\<lambda>k. if k = 195 then Some 7 else None), ht_node = Some 7,
                ht_size = HASH_TABLE_MAX, ht_count = 1\<rparr>"

lemma one_table_inv: "ht_inv one_table (fmupd 7 one_item fmempty) [7]"
proof -
  have "hash_key_generator (Some ''/ab'') = 195" by code_simp
  then have "item_ok HASH_TABLE_MAX one_item"
    by (simp add: item_ok_def one_item_def HASH_TABLE_MAX_def HASH_ITEM_MAX_SIZE_STR_def)
  then show ?thesis
    by (auto simp: ht_inv_def one_table_def items_ok_def key_of_def HASH_TABLE_MAX_def)
       (auto simp: one_item_def split: if_splits)
qed


text \<open>
  A string whose key is taken costs memory.  The item allocated for it is not
  released by the insertion, is not reachable from the table, and is still there after the
  table has been released.
\<close>

theorem hash_taken_key_leaks:
  assumes "ht_inv t h as" and "fmlookup h a = None" and "storable v"
    and "unat (hash_key_generator (Some v)) < nat (ht_size t)"
    and "ht_table t (unat (hash_key_generator (Some v))) = Some b"
  shows "\<exists>rc h' h''. hash_table_insert_item over (Some a) (Some t) (Some v) h = Ret (rc, Some t, h')
           \<and> a \<notin> set as \<and> hash_table_free (Some t) h' = Ret h'' \<and> fmlookup h'' a \<noteq> None"
proof -
  have anew: "a \<notin> set as" using assms(1,2) by (rule ht_inv_not_fresh)
  let ?it = "\<lparr>hi_key = hash_key_generator (Some v), hi_value = v, hi_previous = None, hi_next = None\<rparr>"
  have create: "hash_item_create (Some a) (Some v) h = Ret (Some a, fmupd a ?it h)"
    using assms(3) by (simp add: hash_item_create_def storable_def Let_def)
  from hash_table_insert_occupied [OF assms, of over] obtain rc h' where
    r: "hash_table_insert_item over (Some a) (Some t) (Some v) h = Ret (rc, Some t, h')"
    and inv: "ht_inv t h' as" by auto
  have "ht_count t \<noteq> ht_size t" using ht_inv_count_bound [OF assms(1)] by simp
  moreover have "hash_key_generator (Some v) \<noteq> 0" using assms(3) by (auto simp: storable_def)
  ultimately have "h' = fmupd a ?it h"
    using r create table_read_ok [OF assms(1,4)] assms(5)
    by (auto simp: hash_table_insert_item_def Let_def c_simps split: if_splits)
  with inv hash_table_free_inv [OF inv] r anew show ?thesis by auto
qed

theorem hash_taken_key_leaks_witness:
  "\<exists>rc h' h''. hash_table_insert_item (\<lambda>_. []) (Some 8) (Some one_table) (Some ''/ba'')
         (fmupd 7 one_item fmempty) = Ret (rc, Some one_table, h')
       \<and> hash_table_free (Some one_table) h' = Ret h'' \<and> fmlookup h'' 8 \<noteq> None"
proof -
  have "ht_table one_table (unat (hash_key_generator (Some ''/ba''))) = Some 7"
    by (simp add: key_ab one_table_def)
  moreover have "unat (hash_key_generator (Some ''/ba'')) < nat (ht_size one_table)"
    by (simp add: key_ab one_table_def HASH_TABLE_MAX_def)
  ultimately show ?thesis
    using hash_taken_key_leaks [OF one_table_inv, of 8 "''/ba''" 7 "\<lambda>_. []"] storable_ab by auto
qed

text \<open>
  The key ignores the first character and the order of the others, and a search by
  value does not compare values.  Looking up \<open>w\<close> in a table that holds \<open>v\<close> under the same
  key returns the item of \<open>v\<close>.
\<close>

theorem hash_search_confuses:
  assumes "ht_inv t h as" and "ht_size t = HASH_TABLE_MAX"
    and "mset v = mset w" and "ht_abs t h (unat (hash_key_generator (Some (c # v)))) = Some (c # v)"
  shows "\<exists>a it. hash_table_search_item (Some t) 0 (Some (d # w)) = Ret (Some a)
           \<and> fmlookup h a = Some it \<and> hi_value it = c # v"
proof -
  have same: "hash_key_generator (Some (d # w)) = hash_key_generator (Some (c # v))"
    using assms(3) by (simp add: hash_key_anagram)
  from assms(4) obtain a where a: "ht_table t (unat (hash_key_generator (Some (c # v)))) = Some a"
    "value_of h a = c # v" by (auto simp: ht_abs_def)
  with ht_inv_table [OF assms(1)] ht_inv_item [OF assms(1)] obtain it where "fmlookup h a = Some it"
    by blast
  with a hash_table_search_value [OF assms(1,2), of "d # w"] same show ?thesis
    by (auto simp: value_of_def)
qed

theorem hash_search_confuses_witness:
  "\<exists>a it. hash_table_search_item (Some one_table) 0 (Some ''xba'') = Ret (Some a)
       \<and> fmlookup (fmupd 7 one_item fmempty) a = Some it \<and> hi_value it = ''/ab''"
proof -
  have "ht_abs one_table (fmupd 7 one_item fmempty) (unat (hash_key_generator (Some ''/ab''))) = Some ''/ab''"
    unfolding key_ab by (simp add: ht_abs_def one_table_def value_of_def one_item_def)
  moreover have "ht_size one_table = HASH_TABLE_MAX" by (simp add: one_table_def)
  ultimately show ?thesis
    using hash_search_confuses [OF one_table_inv, of "''ab''" "''ba''" "CHR ''/''" "CHR ''x''"]
    by (simp add: add_mset_commute)
qed

end
