(* ===== verification/Helpers_Common.thy ===== *)
theory Helpers_Common
  imports C_Prelude
begin

text \<open>
  The shared declarations of \<open>include/helpers/helpers_common.h\<close> and the two functions of
  \<open>services/helpers/helpers_common.c\<close>: the signals, the message the services and the manager
  exchange with its byte layout, \<open>strinit\<close> and \<open>message_init\<close>; and the static path
  buffers (log file, backup directory), whose two setters have the same text.
\<close>

definition MSS_BUFFER_SIZE :: nat where "MSS_BUFFER_SIZE = 512"

section \<open>Signals\<close>

text \<open>The enumerators count from 0.\<close>

datatype mss_backup_service_signal =
  SIGNAL_BACKUP_INIT | SIGNAL_MAKE_BACKUP_DENY | SIGNAL_MAKE_BACKUP_ACCEPT

datatype mss_firewall_service_signal =
  SIGNAL_FIREWALL_INIT | SIGNAL_MAKE_FIREWALL_DENY | SIGNAL_MAKE_FIREWALL_ACCEPT

datatype ipc_message_process_id =
  backup_service_process_type | firewall_service_process_type

fun backup_signal_code :: "mss_backup_service_signal \<Rightarrow> u8" where
  "backup_signal_code SIGNAL_BACKUP_INIT = 0"
| "backup_signal_code SIGNAL_MAKE_BACKUP_DENY = 1"
| "backup_signal_code SIGNAL_MAKE_BACKUP_ACCEPT = 2"

fun firewall_signal_code :: "mss_firewall_service_signal \<Rightarrow> u8" where
  "firewall_signal_code SIGNAL_FIREWALL_INIT = 0"
| "firewall_signal_code SIGNAL_MAKE_FIREWALL_DENY = 1"
| "firewall_signal_code SIGNAL_MAKE_FIREWALL_ACCEPT = 2"

fun process_id_code :: "ipc_message_process_id \<Rightarrow> u32" where
  "process_id_code backup_service_process_type = 0"
| "process_id_code firewall_service_process_type = 1"

section \<open>The message\<close>

text \<open>
  \<open>struct ipc_message_\<close> in memory: the process id in bytes 0 to 3, the signal in byte 4,
  the text in bytes 5 to 516, three bytes of padding.
\<close>

record service_message =
  process_id :: u32
  signal :: u8
  message_data :: string

definition message_sizeof :: nat where
  "message_sizeof = 520"

definition message_bytes :: "service_message \<Rightarrow> string" where
  "message_bytes m =
     le32_bytes (process_id m) @ [char_of (unat (signal m))] @ message_data m @ replicate 3 NUL"

definition msg_process_id :: "string \<Rightarrow> u32" where
  "msg_process_id mem = le32_of mem"

definition msg_signal :: "string \<Rightarrow> u8" where
  "msg_signal mem = of_nat (byte mem 4)"

definition msg_set_signal :: "u8 \<Rightarrow> string \<Rightarrow> string" where
  "msg_set_signal s mem = mem[4 := char_of (unat s)]"

definition message_wf :: "service_message \<Rightarrow> bool" where
  "message_wf m \<longleftrightarrow> length (message_data m) = MSS_BUFFER_SIZE"

lemma message_bytes_length: "message_wf m \<Longrightarrow> length (message_bytes m) = message_sizeof"
  by (simp add: message_bytes_def message_wf_def message_sizeof_def MSS_BUFFER_SIZE_def)

lemma unat_u8_less: "unat (x :: u8) < 256"
  using unsigned_less [of x] by simp

lemma msg_fields [simp]:
  "msg_process_id (message_bytes m) = process_id m"
  "msg_signal (message_bytes m) = signal m"
  using unat_u8_less [of "signal m"]
  by (simp_all add: msg_process_id_def msg_signal_def message_bytes_def byte_def nth_append)

lemma msg_set_signal_bytes [simp]:
  "msg_set_signal s (message_bytes m) = message_bytes (m\<lparr>signal := s\<rparr>)"
  by (simp add: msg_set_signal_def message_bytes_def list_update_append)

section \<open>The two helper functions\<close>

text \<open>\<open>string[0] = '\0'\<close>\<close>

definition strinit :: "string \<Rightarrow> string" where
  "strinit buf = buf[0 := NUL]"

text \<open>
  \<open>message_init\<close> assigns the fresh block to its own copy of the pointer: the result is what
  the caller's variable holds afterwards, and the heap with the new block.
\<close>

definition message_init ::
  "addr option \<Rightarrow> addr option \<Rightarrow> nat \<Rightarrow> (addr, string) fmap \<Rightarrow>
     (addr option \<times> (addr, string) fmap) outcome" where
  "message_init m message message_size h =
     (case m of
        None \<Rightarrow> if message_size = 0 then Ret (message, h) else Fault Null_Deref
      | Some a \<Rightarrow> Ret (message, fmupd a (replicate message_size NUL) h))"

section \<open>Static path buffers\<close>

text \<open>
  The contract of a path buffer of \<open>cap\<close> bytes: what its setter stores and what a reader
  sees.  The setters copy \<open>strlen\<close> bytes and no terminator.
\<close>

definition set_path :: "string \<Rightarrow> string option \<Rightarrow> string outcome" where
  "set_path buf s =
     (case s of None \<Rightarrow> Ret buf
      | Some v \<Rightarrow> oget Oob_Write (strncpy_len (strinit buf) v))"

lemma strinit_zero [simp]: "strinit (replicate n NUL) = replicate n NUL"
  by (cases n) (simp_all add: strinit_def)

lemma set_path_zero [simp]: "length v \<le> n \<Longrightarrow> set_path (replicate n NUL) (Some v) = Ret (padded n v)"
  by (simp add: set_path_def)

lemma set_path_length: "set_path buf s = Ret buf' \<Longrightarrow> length buf' = length buf"
  by (auto simp: set_path_def strinit_def c_simps dest: strncpy_len_length split: option.splits)

lemma set_path_fits:
  "set_path buf (Some v) = (if length v \<le> length buf then Ret (v @ drop (length v) (strinit buf))
                            else Fault Oob_Write)"
  by (simp add: set_path_def strncpy_len_def strinit_def)

locale path_buffer =
  fixes setp :: "string option \<Rightarrow> string \<Rightarrow> string outcome"
    and cap :: nat
  assumes setp_eq: "length buf = cap \<Longrightarrow> setp s buf = set_path buf s"
begin

lemma setp_cap: "length buf = cap \<Longrightarrow> setp s buf = Ret buf' \<Longrightarrow> length buf' = cap"
  using setp_eq set_path_length by metis

text \<open>On a zeroed buffer with room to spare the path is read back.\<close>

lemma setp_fresh:
  assumes "nul_free v" and "length v < cap"
  shows "\<exists>buf'. setp (Some v) (replicate cap NUL) = Ret buf' \<and> length buf' = cap
           \<and> cstring buf' = Some v"
proof -
  have "setp (Some v) (replicate cap NUL) = Ret (padded cap v)"
    using assms(2) by (simp add: setp_eq)
  then show ?thesis using assms by simp
qed

text \<open>A later, shorter path keeps the tail of the one before it.\<close>

lemma setp_tail:
  assumes "length buf = cap" and "cstring buf = Some old" and "nul_free v" and "v \<noteq> []"
    and "length v < length old"
  shows "\<exists>buf'. setp (Some v) buf = Ret buf' \<and> cstring buf' = Some (v @ drop (length v) old)"
proof -
  obtain rest where buf: "buf = old @ NUL # rest" and nf: "nul_free old"
    using assms(2) by (rule cstring_Some_split)
  obtain n where n: "length v = Suc n" using assms(4) by (cases v) auto
  have "drop (length v) (strinit buf) = drop (length v) old @ NUL # rest"
    using assms(5) n by (cases old) (simp_all add: buf strinit_def)
  moreover have "nul_free (drop (length v) old)"
    using nf by (auto simp: nul_free_def dest: in_set_dropD)
  ultimately show ?thesis
    using assms by (simp add: setp_eq set_path_fits buf flip: append_assoc)
qed

lemma setp_overflow: "length buf = cap \<Longrightarrow> cap < length v \<Longrightarrow> setp (Some v) buf = Fault Oob_Write"
  by (simp add: setp_eq set_path_fits)

end

section \<open>Waiting for a thread\<close>

text \<open>
  The loop both drivers wait with: \<open>tryjoin t\<close> is the result of the attempt after \<open>t\<close> seconds;
  does the wait end with the timeout?  (The callers pass a positive limit.)
\<close>

function wait_join :: "nat \<Rightarrow> (nat \<Rightarrow> int) \<Rightarrow> nat \<Rightarrow> bool" where
  "wait_join limit tryjoin total_sleep =
     (if tryjoin total_sleep = 0 then False
      else if limit = 0 \<or> (total_sleep + 1) mod limit = 0 then True
      else wait_join limit tryjoin (total_sleep + 1))"
  by pat_completeness auto
termination
proof (relation "measure (\<lambda>(limit, tryjoin, t). limit - t mod limit)", goal_cases)
  case 1
  then show ?case by simp
next
  case (2 limit tryjoin t)
  then have "t mod limit < limit" "Suc t mod limit \<noteq> 0" by simp_all
  then show ?case by (simp add: mod_Suc split: if_splits)
qed

declare wait_join.simps [simp del]

lemma wait_join_from:
  assumes "t < limit"
  shows "wait_join limit tryjoin t \<longleftrightarrow> (\<forall>k \<in> {t..<limit}. tryjoin k \<noteq> 0)"
  using assms
proof (induction "limit - t" arbitrary: t)
  case 0
  then show ?case by simp
next
  case (Suc n)
  have "{t..<limit} = insert t {Suc t..<limit}" using Suc.prems by auto
  then have split: "(\<forall>k \<in> {t..<limit}. tryjoin k \<noteq> 0) \<longleftrightarrow> tryjoin t \<noteq> 0 \<and> (\<forall>k \<in> {Suc t..<limit}. tryjoin k \<noteq> 0)"
    by simp
  show ?case
  proof (cases "Suc t = limit")
    case True
    then show ?thesis unfolding split by (simp add: wait_join.simps [of limit tryjoin t])
  next
    case False
    with Suc have "wait_join limit tryjoin (t + 1) \<longleftrightarrow> (\<forall>k \<in> {t + 1..<limit}. tryjoin k \<noteq> 0)" by simp
    moreover have "Suc t mod limit \<noteq> 0" using False Suc.prems by simp
    ultimately show ?thesis using Suc.prems by (simp add: wait_join.simps [of limit tryjoin t] split)
  qed
qed

end
