(* ===== verification/Logger.thy ===== *)
theory Logger
  imports Helpers_Common
begin

text \<open>
  \<open>services/helpers/helpers_logger.c\<close>: the static path buffer of 2048 bytes with its setter
  and getter, and the function that appends a line to the log file.  The file system is a map
  from paths to contents; \<open>can_open\<close> says which paths \<open>fopen(..., "a")\<close> opens.
\<close>

definition LOGGER_PATH_TO_LOG_LEN :: nat where "LOGGER_PATH_TO_LOG_LEN = 2048"
definition LOGGER_INVALID_EXIT :: int where "LOGGER_INVALID_EXIT = 1"
definition LOGGER_NORMAL_EXIT :: int where "LOGGER_NORMAL_EXIT = 0"
definition PATH_TO_LOGGER_DEFINE :: string where "PATH_TO_LOGGER_DEFINE = ''path_to_log''"

definition path_to_log_init :: string where
  "path_to_log_init = replicate LOGGER_PATH_TO_LOG_LEN NUL"

definition logger_set_path_to_log :: "string option \<Rightarrow> string \<Rightarrow> string outcome" where
  "logger_set_path_to_log path path_to_log =
     (case path of None \<Rightarrow> Ret path_to_log
      | Some v \<Rightarrow> oget Oob_Write (strncpy_len (strinit path_to_log) v))"

definition logger_get_path_to_log :: "string \<Rightarrow> string outcome" where
  "logger_get_path_to_log path_to_log = oget Oob_Read (cstring path_to_log)"

type_synonym log_files = "string \<rightharpoonup> string"

definition append_line :: "string \<Rightarrow> string \<Rightarrow> log_files \<Rightarrow> log_files" where
  "append_line path line fs =
     fs(path \<mapsto> (case fs path of None \<Rightarrow> [] | Some c \<Rightarrow> c) @ line @ [LF])"

definition logger ::
  "(string \<Rightarrow> bool) \<Rightarrow> string \<Rightarrow> string option \<Rightarrow> log_files \<Rightarrow> (int \<times> log_files) outcome" where
  "logger can_open path_to_log message fs =
     (case message of None \<Rightarrow> Ret (LOGGER_INVALID_EXIT, fs)
      | Some msg \<Rightarrow>
          obind (logger_get_path_to_log path_to_log) (\<lambda>path.
            if can_open path then Ret (LOGGER_NORMAL_EXIT, append_line path msg fs)
            else Ret (LOGGER_INVALID_EXIT, fs)))"

interpretation log_path: path_buffer logger_set_path_to_log LOGGER_PATH_TO_LOG_LEN
  by unfold_locales (simp add: logger_set_path_to_log_def set_path_def)

lemma logger_runs:
  assumes "cstring path_to_log = Some path"
  shows "logger can_open path_to_log (Some msg) fs =
    Ret (if can_open path then (LOGGER_NORMAL_EXIT, append_line path msg fs)
         else (LOGGER_INVALID_EXIT, fs))"
  using assms by (simp add: logger_def logger_get_path_to_log_def)

text \<open>The log only grows.\<close>

lemma logger_prefix:
  assumes "logger can_open p msg fs = Ret (rc, fs')" and "fs q = Some c"
  shows "\<exists>d. fs' q = Some (c @ d)"
  using assms
  by (auto simp: logger_def append_line_def c_simps split: option.splits if_splits)

section \<open>Properties\<close>

text \<open>
  Claim C16: on the zeroed static buffer a path of fewer than 2048 bytes is stored so that the
  logger then appends its messages to exactly that file, one line each.
\<close>

theorem logger_uses_configured_path:
  assumes "nul_free v" and "length v < LOGGER_PATH_TO_LOG_LEN" and "can_open v"
  shows "\<exists>buf. logger_set_path_to_log (Some v) path_to_log_init = Ret buf
           \<and> logger can_open buf (Some msg) fs = Ret (LOGGER_NORMAL_EXIT, append_line v msg fs)"
  using log_path.setp_fresh [OF assms(1,2)] assms(3)
  by (auto simp: path_to_log_init_def logger_runs)

theorem logger_uses_configured_path_witness:
  "\<exists>buf. logger_set_path_to_log (Some ''/l'') path_to_log_init = Ret buf
       \<and> logger (\<lambda>_. True) buf (Some ''hi'') Map.empty
           = Ret (LOGGER_NORMAL_EXIT, append_line ''/l'' ''hi'' Map.empty)"
  by (rule logger_uses_configured_path) (simp_all add: LOGGER_PATH_TO_LOG_LEN_def)

text \<open>
  The setter does not terminate the copy.  Setting a path that is shorter than the
  one before leaves the rest of the old one behind it, and a path of more than 2048 bytes is
  written past the buffer.
\<close>

theorem logger_path_keeps_tail:
  assumes "length buf = LOGGER_PATH_TO_LOG_LEN" and "cstring buf = Some old"
    and "nul_free v" and "v \<noteq> []" and "length v < length old"
  shows "\<exists>buf'. logger_set_path_to_log (Some v) buf = Ret buf'
           \<and> logger_get_path_to_log buf' = Ret (v @ drop (length v) old)
           \<and> (\<forall>w. LOGGER_PATH_TO_LOG_LEN < length w \<longrightarrow>
                 logger_set_path_to_log (Some w) buf = Fault Oob_Write)"
  using log_path.setp_tail [OF assms] log_path.setp_overflow [OF assms(1)]
  by (auto simp: logger_get_path_to_log_def)

theorem logger_path_keeps_tail_witness:
  "\<exists>buf'. logger_set_path_to_log (Some ''/a'') (''/logs'' @ replicate 2043 NUL) = Ret buf'
       \<and> logger_get_path_to_log buf' = Ret ''/aogs''"
proof -
  have "replicate 2043 NUL = NUL # replicate 2042 NUL"
    using replicate_Suc [of 2042 NUL] by simp
  then have "cstring (''/logs'' @ replicate 2043 NUL) = Some ''/logs''"
    using cstring_append_NUL [of "''/logs''" "replicate 2042 NUL"] by simp
  with logger_path_keeps_tail [of "''/logs'' @ replicate 2043 NUL" "''/logs''" "''/a''"] show ?thesis
    by (auto simp: LOGGER_PATH_TO_LOG_LEN_def)
qed

end
