(* ===== verification/Config_Parser.thy ===== *)
theory Config_Parser
  imports Helpers_Common
begin

text \<open>
  \<open>services/helpers/helpers_parser.c\<close> (finding a delimiter, reading a configuration file into
  a buffer) and the line loop that \<open>fw_parse_and_serialize_config\<close> and
  \<open>backup_parse_and_serialize_config\<close> share word for word; what is done with a key and its
  value is a parameter of the loop.

  The loop reads past the end of the buffer when the last line has no newline, and stores a
  terminator one byte past a variable-length array on the first line.  Both accesses are kept:
  \<open>mem\<close> is the buffer with the readable memory that follows it, \<open>cap n\<close> the number of
  bytes the compiler really reserves for an array of \<open>n\<close> bytes.
\<close>

definition PARSER_INVALID_EXIT :: int where "PARSER_INVALID_EXIT = -1"
definition PARSER_DELIMETER :: char where "PARSER_DELIMETER = CHR '':''"
definition PARSER_SLASH :: char where "PARSER_SLASH = CHR ''/''"
definition PARSER_FILE_STROKE_MAX_LEN :: nat where "PARSER_FILE_STROKE_MAX_LEN = 168"

section \<open>helpers_parser.c\<close>

definition parser_get_index_by_param :: "string option \<Rightarrow> char \<Rightarrow> int" where
  "parser_get_index_by_param stroke param =
     (case stroke of None \<Rightarrow> PARSER_INVALID_EXIT
      | Some s \<Rightarrow>
          if length s > PARSER_FILE_STROKE_MAX_LEN then -2
          else (case strchr s param of None \<Rightarrow> PARSER_INVALID_EXIT | Some i \<Rightarrow> int i))"

text \<open>\<open>while (fread(buffer, 1, n, cp));\<close> every block is stored at the front of the buffer.\<close>

function fread_loop :: "nat \<Rightarrow> string \<Rightarrow> string \<Rightarrow> string" where
  "fread_loop n buffer file =
     (if n = 0 \<or> file = [] then buffer
      else fread_loop n (take n file @ drop (length (take n file)) buffer) (drop n file))"
  by pat_completeness auto
termination
  by (relation "measure (\<lambda>(n, buffer, file). length file)") auto

declare fread_loop.simps [simp del]

text \<open>
  \<open>getcwd\<close> is the result of that call, \<open>open1\<close> and \<open>open2\<close> what the two \<open>fopen\<close> calls
  find, \<open>garbage\<close> the value of the uninitialised variable \<open>lines\<close>, \<open>alloc n\<close> whether
  \<open>malloc(n)\<close> succeeds (its result is not tested before \<open>memset\<close>).
\<close>

definition parser_read_conf ::
  "string option \<Rightarrow> (string \<Rightarrow> string option) \<Rightarrow> (string \<Rightarrow> string option) \<Rightarrow> int \<Rightarrow> (nat \<Rightarrow> bool) \<Rightarrow>
     string \<Rightarrow> string option outcome" where
  "parser_read_conf getcwd open1 open2 garbage alloc path_to_config =
     (case getcwd of None \<Rightarrow> Ret None
      | Some cwd \<Rightarrow>
          let pathToConf = cwd @ path_to_config in
          (case open1 pathToConf of None \<Rightarrow> Ret None
           | Some content \<Rightarrow>
               let lines = garbage + int (count_list content LF) + 1;
                   n = nat ((int PARSER_FILE_STROKE_MAX_LEN * lines) mod 2 ^ 64) in
               if \<not> alloc n then Fault Null_Deref
               else (case open2 pathToConf of None \<Rightarrow> Ret None
                     | Some content2 \<Rightarrow> Ret (Some (fread_loop n (replicate n NUL) content2)))))"

text \<open>The environment of a configuration run, bundled for the services' \<open>start\<close> functions.\<close>

record conf_env =
  ce_cap :: "nat \<Rightarrow> nat"
  ce_after :: string
  ce_getcwd :: "string option"
  ce_open1 :: "string \<Rightarrow> string option"
  ce_open2 :: "string \<Rightarrow> string option"
  ce_lines :: int
  ce_alloc :: "nat \<Rightarrow> bool"

section \<open>The line loop\<close>

text \<open>\<open>for (i = before; buffer[i] != '\n'; i++) if (buffer[i] == '\0') flag = false;\<close>\<close>

function scan_line :: "string \<Rightarrow> nat \<Rightarrow> bool \<Rightarrow> (nat \<times> bool) outcome" where
  "scan_line mem i flag =
     (if length mem \<le> i then Fault Oob_Read
      else if mem ! i = LF then Ret (i, flag)
      else scan_line mem (Suc i) (if mem ! i = NUL then False else flag))"
  by pat_completeness auto
termination
  by (relation "measure (\<lambda>(mem, i, flag). length mem - i)") auto

declare scan_line.simps [simp del]

datatype line_result = Too_Long | No_Delimiter | Entry string string

text \<open>
  From the copied line (without the terminator stored behind it) to its key and value.  The
  value starts two characters after the delimiter; when the line ends right behind the
  delimiter, this is past everything that was stored.
\<close>

definition parse_line :: "string \<Rightarrow> line_result outcome" where
  "parse_line tmp =
     (let s = takeWhile (\<lambda>c. c \<noteq> NUL) tmp in
      if length s > PARSER_FILE_STROKE_MAX_LEN then Ret Too_Long
      else
        let index = parser_get_index_by_param (Some s) PARSER_DELIMETER in
        if 0 > index then Ret No_Delimiter
        else
          let before_value = take (nat index) s in
          if length tmp < nat index + 2 then Fault Uninit_Read
          else Ret (Entry before_value
                     (takeWhile (\<lambda>c. c \<noteq> NUL) (drop (nat index + 2) tmp))))"

text \<open>What the code does with an entry: go on, leave the loop, or return an error.\<close>

datatype 'a key_step = Continue 'a | Break 'a | Give_Up

lemma scan_line_after:
  "scan_line mem i flag = Ret (j, flag') \<Longrightarrow> i \<le> j \<and> j < length mem"
proof (induction mem i flag rule: scan_line.induct)
  case (1 mem i flag)
  then show ?case
    by (subst (asm) (2) scan_line.simps) (auto split: if_splits)
qed

function conf_loop ::
  "(nat \<Rightarrow> nat) \<Rightarrow> (string \<Rightarrow> string \<Rightarrow> 'a \<Rightarrow> 'a key_step outcome) \<Rightarrow> string \<Rightarrow> nat \<Rightarrow> bool \<Rightarrow> 'a \<Rightarrow>
     (int \<times> 'a) outcome" where
  "conf_loop cap handle mem before flag st =
     (if \<not> flag then Ret (0, st)
      else
        obind (scan_line mem before flag) (\<lambda>(after, flag').
          if cap after \<le> after - before then Fault Oob_Write
          else
            obind (parse_line (take (after - before) (drop before mem))) (\<lambda>r.
              case r of Too_Long \<Rightarrow> Ret (-1, st)
              | No_Delimiter \<Rightarrow> Ret (0, st)
              | Entry key val \<Rightarrow>
                  obind (handle key val st) (\<lambda>k.
                    case k of Continue st' \<Rightarrow> conf_loop cap handle mem (Suc after) flag' st'
                    | Break st' \<Rightarrow> Ret (0, st')
                    | Give_Up \<Rightarrow> Ret (-1, st)))))"
  by pat_completeness auto
termination
  by (relation "measure (\<lambda>(cap, handle, mem, before, flag, st). length mem - before)")
     (auto dest: scan_line_after)

declare conf_loop.simps [simp del]


section \<open>Reading the file\<close>

lemma fread_loop_one:
  assumes "length cs \<le> n"
  shows "fread_loop n (replicate n NUL) cs = cs @ replicate (n - length cs) NUL"
proof (cases "cs = []")
  case True
  then show ?thesis by (simp add: fread_loop.simps)
next
  case False
  with assms have "0 < n" by (cases cs) auto
  with False assms show ?thesis
    by (simp add: fread_loop.simps [of n "replicate n NUL" cs] fread_loop.simps [of n _ "[]"])
qed

text \<open>A file of more than one block: the last block overwrites the front of the first.\<close>

lemma fread_loop_two:
  assumes "n < length cs" and "length cs \<le> 2 * n"
  shows "fread_loop n (replicate n NUL) cs
           = drop n cs @ drop (length cs - n) (take n cs)"
proof -
  from assms have "0 < n" and ne: "cs \<noteq> []" "drop n cs \<noteq> []" by auto
  with assms show ?thesis
    by (simp add: fread_loop.simps [of n "replicate n NUL" cs]
        fread_loop.simps [of n _ "drop n cs"] fread_loop.simps [of n _ "[]"])
qed

text \<open>The lines of a file; a file of short lines fits the buffer with a terminator to spare.\<close>

fun file_lines :: "string \<Rightarrow> string list" where
  "file_lines [] = [[]]"
| "file_lines (c # cs) =
     (if c = LF then [] # file_lines cs
      else (case file_lines cs of [] \<Rightarrow> [[c]] | l # ls \<Rightarrow> (c # l) # ls))"

lemma file_lines_nonempty [simp]: "file_lines s \<noteq> []"
  by (induction s) (auto split: list.splits)

lemma file_lines_count: "length (file_lines s) = count_list s LF + 1"
proof (induction s)
  case Nil
  then show ?case by simp
next
  case (Cons c s)
  then show ?case by (cases "file_lines s") auto
qed

lemma file_lines_total: "length s + 1 = sum_list (map (\<lambda>l. length l + 1) (file_lines s))"
proof (induction s)
  case Nil
  then show ?case by simp
next
  case (Cons c s)
  then show ?case by (cases "file_lines s") auto
qed

lemma file_fits:
  assumes "\<forall>l \<in> set (file_lines s). length l < PARSER_FILE_STROKE_MAX_LEN"
  shows "length s < PARSER_FILE_STROKE_MAX_LEN * (count_list s LF + 1)"
proof -
  have "sum_list (map (\<lambda>l. length l + 1) ls) \<le> PARSER_FILE_STROKE_MAX_LEN * length ls"
    if "\<forall>l \<in> set ls. length l < PARSER_FILE_STROKE_MAX_LEN" for ls :: "string list"
    using that by (induction ls) auto
  from this [OF assms] show ?thesis
    using file_lines_total [of s] file_lines_count [of s] by simp
qed

lemma parser_read_conf_fits:
  assumes "getcwd = Some cwd" and "open1 (cwd @ p) = Some content" and "open2 (cwd @ p) = Some content"
    and short: "\<forall>l \<in> set (file_lines content). length l < PARSER_FILE_STROKE_MAX_LEN"
    and n: "n = PARSER_FILE_STROKE_MAX_LEN * (count_list content LF + 1)"
    and "n < 2 ^ 64" and "alloc n"
  shows "parser_read_conf getcwd open1 open2 0 alloc p
           = Ret (Some (content @ replicate (n - length content) NUL)) \<and> length content < n"
proof -
  have fit: "length content < n" unfolding n using short by (rule file_fits)
  have "int PARSER_FILE_STROKE_MAX_LEN * (0 + int (count_list content LF) + 1) = int n"
    by (simp add: n algebra_simps)
  then have "nat ((int PARSER_FILE_STROKE_MAX_LEN * (0 + int (count_list content LF) + 1)) mod 2 ^ 64) = n"
    using assms(6) by (simp add: nat_mod_as_int)
  with fit assms(1-3,7) show ?thesis
    by (simp add: parser_read_conf_def fread_loop_one)
qed

section \<open>One line\<close>

lemma scan_line_hit:
  assumes "LF \<notin> set line"
  shows "scan_line (pre @ line @ LF # rest) (length pre) flag
           = Ret (length pre + length line, flag \<and> NUL \<notin> set line)"
  using assms
proof (induction line arbitrary: pre flag)
  case Nil
  then show ?case by (simp add: scan_line.simps)
next
  case (Cons c line)
  have "scan_line (pre @ (c # line) @ LF # rest) (length pre) flag
      = scan_line ((pre @ [c]) @ line @ LF # rest) (length (pre @ [c])) (if c = NUL then False else flag)"
    using Cons.prems by (subst scan_line.simps) (auto simp: eq_commute [of LF])
  also have "\<dots> = Ret (length (pre @ [c]) + length line,
      (if c = NUL then False else flag) \<and> NUL \<notin> set line)"
    using Cons.prems by (intro Cons.IH) simp
  finally show ?case by auto
qed

lemma scan_line_miss:
  "LF \<notin> set (drop i mem) \<Longrightarrow> scan_line mem i flag = Fault Oob_Read"
proof (induction mem i flag rule: scan_line.induct)
  case (1 mem i flag)
  show ?case
  proof (cases "length mem \<le> i")
    case True
    then show ?thesis by (simp add: scan_line.simps)
  next
    case False
    then have "drop i mem = mem ! i # drop (Suc i) mem" by (simp add: Cons_nth_drop_Suc)
    with "1.prems" have "mem ! i \<noteq> LF" and "LF \<notin> set (drop (Suc i) mem)" by auto
    with False "1.IH" show ?thesis by (simp add: scan_line.simps [of mem i])
  qed
qed

definition entry_text :: "string \<times> string \<Rightarrow> string" where
  "entry_text kv = fst kv @ [CHR '':'', CHR '' ''] @ snd kv"

definition wf_entry :: "string \<times> string \<Rightarrow> bool" where
  "wf_entry kv \<longleftrightarrow>
     CHR '':'' \<notin> set (fst kv) \<and> nul_free (fst kv) \<and> nul_free (snd kv) \<and>
     LF \<notin> set (fst kv) \<and> LF \<notin> set (snd kv) \<and>
     length (entry_text kv) \<le> PARSER_FILE_STROKE_MAX_LEN"

lemma entry_text_props:
  assumes "wf_entry kv"
  shows "nul_free (entry_text kv)" and "LF \<notin> set (entry_text kv)" and "entry_text kv \<noteq> []"
  using assms by (auto simp: wf_entry_def entry_text_def)

lemma parse_line_entry:
  assumes "wf_entry kv" and "zs = [] \<or> hd zs = NUL"
  shows "parse_line (entry_text kv @ zs) = Ret (Entry (fst kv) (snd kv))"
proof -
  have tz: "takeWhile (\<lambda>c. c \<noteq> NUL) zs = []"
    using assms(2) by (cases zs) auto
  have s: "takeWhile (\<lambda>c. c \<noteq> NUL) (entry_text kv @ zs) = entry_text kv"
    and v: "takeWhile (\<lambda>c. c \<noteq> NUL) (snd kv @ zs) = snd kv"
    using assms(1) by (simp_all add: tz entry_text_props wf_entry_def)
  have "strchr (entry_text kv) (CHR '':'') = Some (length (fst kv))"
    using assms(1) by (simp add: entry_text_def wf_entry_def)
  then have idx: "parser_get_index_by_param (Some (entry_text kv)) PARSER_DELIMETER = int (length (fst kv))"
    using assms(1) by (simp add: parser_get_index_by_param_def PARSER_DELIMETER_def wf_entry_def)
  have dr: "drop (length (fst kv) + 2) (entry_text kv @ zs) = snd kv @ zs"
    and len: "length (fst kv) + 2 \<le> length (entry_text kv @ zs)"
    and tk: "take (length (fst kv)) (entry_text kv) = fst kv"
    by (simp_all add: entry_text_def)
  show ?thesis
    using assms(1) dr len tk unfolding parse_line_def s Let_def idx
    by (simp add: wf_entry_def v)
qed

lemma parse_line_NUL: "parse_line (NUL # zs) = Ret No_Delimiter"
  by (simp add: parse_line_def parser_get_index_by_param_def PARSER_INVALID_EXIT_def)


section \<open>The whole loop\<close>

text \<open>
  The meaning of a list of entries, and the text of a file that holds them: one
  \<open>key: value\<close> per line, the last line with or without a newline.
\<close>

fun apply_entries ::
  "(string \<Rightarrow> string \<Rightarrow> 'a \<Rightarrow> 'a key_step outcome) \<Rightarrow> (string \<times> string) list \<Rightarrow> 'a \<Rightarrow> (int \<times> 'a) outcome"
where
  "apply_entries handle [] st = Ret (0, st)"
| "apply_entries handle (kv # es) st =
     obind (handle (fst kv) (snd kv) st) (\<lambda>k.
       case k of Continue st' \<Rightarrow> apply_entries handle es st'
       | Break st' \<Rightarrow> Ret (0, st')
       | Give_Up \<Rightarrow> Ret (-1, st))"

fun conf_text :: "(string \<times> string) list \<Rightarrow> string" where
  "conf_text [] = []"
| "conf_text [e] = entry_text e"
| "conf_text (e # es) = entry_text e @ LF # conf_text es"

definition conf_file :: "(string \<times> string) list \<Rightarrow> bool \<Rightarrow> string" where
  "conf_file es final_newline = conf_text es @ (if final_newline then [LF] else [])"

text \<open>
  What the compiler must reserve for the loop not to write outside its array: never less
  than asked for, and one byte more for the first line.
\<close>

definition first_line_length :: "string \<Rightarrow> nat" where
  "first_line_length mem = length (takeWhile (\<lambda>c. c \<noteq> LF) mem)"

definition slack :: "(nat \<Rightarrow> nat) \<Rightarrow> nat \<Rightarrow> bool" where
  "slack cap n \<longleftrightarrow> (\<forall>k. k \<le> cap k) \<and> n < cap n"

lemma first_line_length_eq:
  "LF \<notin> set line \<Longrightarrow> first_line_length (line @ LF # rest) = length line"
  by (auto simp: first_line_length_def takeWhile_append)

lemma conf_loop_line:
  assumes "LF \<notin> set line" and mem: "mem = pre @ line @ LF # rest"
    and "slack cap (first_line_length mem)" and nxt: "n = length (pre @ line @ [LF])"
  shows "conf_loop cap handle mem (length pre) True st =
    obind (parse_line line) (\<lambda>r.
      case r of Too_Long \<Rightarrow> Ret (-1, st)
      | No_Delimiter \<Rightarrow> Ret (0, st)
      | Entry key val \<Rightarrow>
          obind (handle key val st) (\<lambda>k.
            case k of Continue st' \<Rightarrow>
                conf_loop cap handle mem n (NUL \<notin> set line) st'
            | Break st' \<Rightarrow> Ret (0, st')
            | Give_Up \<Rightarrow> Ret (-1, st)))"
proof -
  have "length line < cap (length pre + length line)"
  proof (cases pre)
    case Nil
    then show ?thesis using assms by (simp add: slack_def first_line_length_eq)
  next
    case (Cons c cs)
    then have "length line < length pre + length line" by simp
    also have "\<dots> \<le> cap (length pre + length line)" using assms(3) by (simp add: slack_def)
    finally show ?thesis .
  qed
  moreover have "take (length line) (drop (length pre) mem) = line" by (simp add: mem)
  moreover have "scan_line mem (length pre) True = Ret (length pre + length line, NUL \<notin> set line)"
    using assms(1) by (simp add: mem scan_line_hit)
  ultimately show ?thesis
    using nxt by (simp add: conf_loop.simps [of cap handle mem "length pre" True st]
        cong: line_result.case_cong key_step.case_cong)
qed

lemma conf_loop_entry:
  assumes "wf_entry e" and "LF \<notin> set zs" and "zs = [] \<or> hd zs = NUL"
    and mem: "mem = pre @ (entry_text e @ zs) @ LF # rest"
    and "slack cap (first_line_length mem)" and nxt: "n = length (pre @ (entry_text e @ zs) @ [LF])"
  shows "conf_loop cap handle mem (length pre) True st =
    obind (handle (fst e) (snd e) st) (\<lambda>k.
      case k of Continue st' \<Rightarrow>
          conf_loop cap handle mem n (zs = []) st'
      | Break st' \<Rightarrow> Ret (0, st')
      | Give_Up \<Rightarrow> Ret (-1, st))"
proof -
  have "LF \<notin> set (entry_text e @ zs)" using assms(1,2) by (simp add: entry_text_props)
  moreover have "NUL \<notin> set (entry_text e @ zs) \<longleftrightarrow> zs = []"
    using assms(1,3) entry_text_props(1) [of e] by (cases zs) (auto simp: nul_free_def)
  ultimately show ?thesis
    using conf_loop_line [OF _ mem assms(5) nxt] parse_line_entry [OF assms(1,3)] by simp
qed

lemma conf_loop_done [simp]: "conf_loop cap handle mem i False st = Ret (0, st)"
  by (simp add: conf_loop.simps)

text \<open>
  With slack in the arrays and a newline somewhere behind the buffer, the loop applies the
  entries of the file, for a file with and without a final newline.
\<close>

lemma conf_loop_entries:
  assumes "es \<noteq> []" and "\<forall>e \<in> set es. wf_entry e" and "LF \<in> set junk"
    and "mem = pre @ conf_file es nl @ NUL # junk" and "slack cap (first_line_length mem)"
  shows "conf_loop cap handle mem (length pre) True st = apply_entries handle es st"
  using assms
proof (induction es arbitrary: pre st rule: conf_text.induct)
  case 1
  then show ?case by simp
next
  case (2 e)
  obtain j1 j2 where junk: "junk = j1 @ LF # j2" and j1: "LF \<notin> set j1"
    using "2.prems"(3) by (meson split_list_first)
  have wf: "wf_entry e" using "2.prems"(2) by simp
  show ?case
  proof (cases nl)
    case False
    then have "mem = pre @ (entry_text e @ NUL # j1) @ LF # j2"
      using "2.prems"(4) by (simp add: conf_file_def junk)
    from conf_loop_entry [OF wf _ _ this "2.prems"(5) refl, of handle st] j1
    show ?thesis by (cases "handle (fst e) (snd e) st") (auto split: key_step.split)
  next
    case True
    then have mem1: "mem = pre @ (entry_text e @ []) @ LF # NUL # junk"
      and mem2: "mem = (pre @ entry_text e @ [LF]) @ (NUL # j1) @ LF # j2"
      using "2.prems"(4) by (simp_all add: conf_file_def junk)
    have "conf_loop cap handle mem (length (pre @ entry_text e @ [LF])) True st' = Ret (0, st')" for st'
      using conf_loop_line [OF _ mem2 "2.prems"(5) refl] j1 by (simp add: parse_line_NUL)
    then show ?thesis
      using conf_loop_entry [OF wf _ _ mem1 "2.prems"(5) refl, of handle st]
      by (cases "handle (fst e) (snd e) st") (auto split: key_step.split)
  qed
next
  case (3 e e' es)
  have wf: "wf_entry e" using "3.prems"(2) by simp
  have mem1: "mem = pre @ (entry_text e @ []) @ LF # (conf_file (e' # es) nl @ NUL # junk)"
    using "3.prems"(4) by (simp add: conf_file_def)
  have "conf_loop cap handle mem (length (pre @ entry_text e @ [LF])) True st' =
      apply_entries handle (e' # es) st'" for st'
    by (rule "3.IH") (use "3.prems" in \<open>simp_all add: conf_file_def\<close>)
  then show ?case
    using conf_loop_entry [OF wf _ _ mem1 "3.prems"(5) refl, of handle st]
    by (cases "handle (fst e) (snd e) st") (auto split: key_step.split)
qed


text \<open>
  Without a newline behind the buffer, a file whose entries are all taken makes the loop read
  past the memory it was given.
\<close>

fun all_continue ::
  "(string \<Rightarrow> string \<Rightarrow> 'a \<Rightarrow> 'a key_step outcome) \<Rightarrow> (string \<times> string) list \<Rightarrow> 'a \<Rightarrow> bool" where
  "all_continue handle [] st \<longleftrightarrow> True"
| "all_continue handle (kv # es) st \<longleftrightarrow>
     (case handle (fst kv) (snd kv) st of
        Ret (Continue st') \<Rightarrow> all_continue handle es st'
      | _ \<Rightarrow> False)"

lemma all_continueD:
  assumes "all_continue handle (e # es) st"
  obtains st' where "handle (fst e) (snd e) st = Ret (Continue st')" and "all_continue handle es st'"
  using assms by (auto split: outcome.splits key_step.splits)

lemma conf_loop_off_end:
  "LF \<notin> set (drop i mem) \<Longrightarrow> conf_loop cap handle mem i True st = Fault Oob_Read"
  by (simp add: conf_loop.simps scan_line_miss)

lemma conf_loop_runs_off:
  assumes "es \<noteq> []" and "\<forall>e \<in> set es. wf_entry e" and "LF \<notin> set junk"
    and "mem = pre @ conf_file es nl @ NUL # junk" and "slack cap (first_line_length mem)"
    and "all_continue handle es st"
  shows "conf_loop cap handle mem (length pre) True st = Fault Oob_Read"
  using assms
proof (induction es arbitrary: pre st rule: conf_text.induct)
  case 1
  then show ?case by simp
next
  case (2 e)
  have wf: "wf_entry e" using "2.prems"(2) by simp
  show ?case
  proof (cases nl)
    case False
    then have "LF \<notin> set (drop (length pre) mem)"
      using "2.prems"(3,4) entry_text_props(2) [OF wf] by (simp add: conf_file_def)
    then show ?thesis by (rule conf_loop_off_end)
  next
    case True
    then have mem: "mem = pre @ (entry_text e @ []) @ LF # NUL # junk"
      using "2.prems"(4) by (simp add: conf_file_def)
    have "LF \<notin> set (drop (length (pre @ (entry_text e @ []) @ [LF])) mem)"
      using "2.prems"(3) by (simp add: mem)
    from conf_loop_off_end [OF this]
    have "conf_loop cap handle mem (length (pre @ (entry_text e @ []) @ [LF])) True st' = Fault Oob_Read"
      for st' .
    with conf_loop_entry [OF wf _ _ mem "2.prems"(5) refl, of handle st] "2.prems"(6)
    show ?thesis by (simp del: all_continue.simps) (erule all_continueD, simp)
  qed
next
  case (3 e e' es)
  have wf: "wf_entry e" using "3.prems"(2) by simp
  have mem1: "mem = pre @ (entry_text e @ []) @ LF # (conf_file (e' # es) nl @ NUL # junk)"
    using "3.prems"(4) by (simp add: conf_file_def)
  from "3.prems"(6) obtain st' where st': "handle (fst e) (snd e) st = Ret (Continue st')"
    and rest: "all_continue handle (e' # es) st'" by (rule all_continueD)
  have "conf_loop cap handle mem (length (pre @ entry_text e @ [LF])) True st' = Fault Oob_Read"
    by (rule "3.IH") (use "3.prems" rest in \<open>simp_all add: conf_file_def\<close>)
  then show ?case
    using conf_loop_entry [OF wf _ _ mem1 "3.prems"(5) refl, of handle st] st' by simp
qed

text \<open>By the letter of ISO C no run of the loop is free of undefined behaviour.\<close>

lemma conf_loop_iso_c:
  "conf_loop (\<lambda>n. n) handle mem 0 True st = Fault (if LF \<in> set mem then Oob_Write else Oob_Read)"
proof (cases "LF \<in> set mem")
  case True
  then obtain line rest where mem: "mem = [] @ line @ LF # rest" and "LF \<notin> set line"
    by (metis append_Nil split_list_first)
  then have "scan_line mem (length []) True = Ret (length ([] :: string) + length line, True \<and> NUL \<notin> set line)"
    using scan_line_hit [of line "[]" rest True] by simp
  then show ?thesis using True by (simp add: conf_loop.simps)
next
  case False
  then show ?thesis by (simp add: conf_loop_off_end)
qed

lemma conf_loop_RetE:
  assumes "conf_loop cap handle mem before True st = Ret (rc, st')"
  obtains after flag' r where "scan_line mem before True = Ret (after, flag')"
    and "\<not> cap after \<le> after - before"
    and "parse_line (take (after - before) (drop before mem)) = Ret r"
    and "(case r of Too_Long \<Rightarrow> Ret (-1, st) | No_Delimiter \<Rightarrow> Ret (0, st)
        | Entry key val \<Rightarrow> obind (handle key val st) (\<lambda>k.
            case k of Continue st' \<Rightarrow> conf_loop cap handle mem (Suc after) flag' st'
            | Break st' \<Rightarrow> Ret (0, st') | Give_Up \<Rightarrow> Ret (-1, st))) = Ret (rc, st')"
  using assms unfolding conf_loop.simps [of cap handle mem before True st]
  by (auto simp: obind_Ret_iff split: if_splits)

text \<open>The files the loop is for: entries whose lines fit the reading buffer.\<close>

definition conf_ok :: "(string \<times> string) list \<Rightarrow> bool" where
  "conf_ok es \<longleftrightarrow> es \<noteq> [] \<and>
     (\<forall>e \<in> set es. wf_entry e \<and> length (entry_text e) < PARSER_FILE_STROKE_MAX_LEN) \<and>
     PARSER_FILE_STROKE_MAX_LEN * (length es + 1) < 2 ^ 64"

lemma file_lines_append:
  "LF \<notin> set l \<Longrightarrow> file_lines (l @ LF # s) = l # file_lines s"
  by (induction l) auto

lemma file_lines_single: "LF \<notin> set l \<Longrightarrow> file_lines l = [l]"
  by (induction l) auto

lemma file_lines_conf:
  assumes "es \<noteq> []" and "\<forall>e \<in> set es. wf_entry e"
  shows "file_lines (conf_file es nl) = map entry_text es @ (if nl then [[]] else [])"
  using assms
  by (induction es rule: conf_text.induct)
     (auto simp: conf_file_def file_lines_append file_lines_single entry_text_props)

lemma conf_file_read:
  assumes "conf_ok es" and "getcwd = Some cwd" and "open1 (cwd @ p) = Some (conf_file es nl)"
    and "open2 (cwd @ p) = Some (conf_file es nl)" and "\<forall>n. alloc n"
  shows "\<exists>m. parser_read_conf getcwd open1 open2 0 alloc p
               = Ret (Some (conf_file es nl @ NUL # replicate m NUL))"
proof -
  have lines: "file_lines (conf_file es nl) = map entry_text es @ (if nl then [[]] else [])"
    using assms(1) by (simp add: conf_ok_def file_lines_conf)
  have short: "\<forall>l \<in> set (file_lines (conf_file es nl)). length l < PARSER_FILE_STROKE_MAX_LEN"
    using assms(1) by (auto simp: lines conf_ok_def PARSER_FILE_STROKE_MAX_LEN_def)
  define n where "n = PARSER_FILE_STROKE_MAX_LEN * (count_list (conf_file es nl) LF + 1)"
  have "count_list (conf_file es nl) LF + 1 \<le> length es + 1"
    using file_lines_count [of "conf_file es nl"] by (simp add: lines split: if_splits)
  then have "n \<le> PARSER_FILE_STROKE_MAX_LEN * (length es + 1)"
    unfolding n_def by (rule mult_le_mono2)
  then have "n < 2 ^ 64" using assms(1) by (simp add: conf_ok_def)
  then have "parser_read_conf getcwd open1 open2 0 alloc p
      = Ret (Some (conf_file es nl @ replicate (n - length (conf_file es nl)) NUL))
      \<and> length (conf_file es nl) < n"
    using parser_read_conf_fits [of getcwd cwd open1 p "conf_file es nl" open2 n alloc] assms(2-5)
      short n_def by blast
  then have r: "parser_read_conf getcwd open1 open2 0 alloc p
      = Ret (Some (conf_file es nl @ replicate (n - length (conf_file es nl)) NUL))"
    and lt: "length (conf_file es nl) < n" by auto
  from lt obtain m where "n - length (conf_file es nl) = Suc m" by (metis Suc_diff_Suc)
  with r show ?thesis by auto
qed

text \<open>The first line of such a file, also when the memory behind the buffer is counted in.\<close>

lemma first_line_conf:
  assumes "wf_entry e" and "es \<noteq> []"
  shows "first_line_length (conf_file (e # es) nl @ rest) = length (entry_text e)"
proof -
  obtain e' es' where "es = e' # es'" using assms(2) by (cases es) auto
  then have "conf_file (e # es) nl @ rest = entry_text e @ LF # (conf_file es nl @ rest)"
    by (simp add: conf_file_def)
  then show ?thesis
    using first_line_length_eq [OF entry_text_props(2) [OF assms(1)]] by simp
qed

text \<open>
  From the file on disk to the state, for any consumer: both services parse their file as
  \<open>parse_file\<close> does, \<open>err\<close> being the code they return when it cannot be read.
\<close>

definition parse_file ::
  "(nat \<Rightarrow> nat) \<Rightarrow> string \<Rightarrow> string option outcome \<Rightarrow> (string \<Rightarrow> string \<Rightarrow> 'a \<Rightarrow> 'a key_step outcome) \<Rightarrow>
     int \<Rightarrow> 'a \<Rightarrow> (int \<times> 'a) outcome" where
  "parse_file cap after b handle err st =
     obind b (\<lambda>b. case b of None \<Rightarrow> Ret (err, st)
       | Some buffer \<Rightarrow> conf_loop cap handle (buffer @ after) 0 True st)"

lemma conf_parse_file:
  assumes ok: "conf_ok es"
    and "getcwd = Some cwd" and "open1 (cwd @ p) = Some (conf_file es nl)"
    and "open2 (cwd @ p) = Some (conf_file es nl)" and "\<forall>n. alloc n"
    and "es = e # es'" and "es' \<noteq> []" and "slack cap (length (entry_text e))"
  shows "LF \<in> set after \<Longrightarrow>
      parse_file cap after (parser_read_conf getcwd open1 open2 0 alloc p) handle err st
        = apply_entries handle es st"
    and "LF \<notin> set after \<Longrightarrow> all_continue handle es st \<Longrightarrow>
      parse_file cap after (parser_read_conf getcwd open1 open2 0 alloc p) handle err st = Fault Oob_Read"
proof -
  obtain m where read: "parser_read_conf getcwd open1 open2 0 alloc p
      = Ret (Some (conf_file es nl @ NUL # replicate m NUL))"
    using conf_file_read [of es getcwd cwd open1 p nl open2 alloc] assms(1-5) by blast
  define mem where "mem = conf_file es nl @ NUL # (replicate m NUL @ after)"
  have wf: "\<forall>e \<in> set es. wf_entry e" and ne: "es \<noteq> []" using ok by (simp_all add: conf_ok_def)
  have "first_line_length mem = length (entry_text e)"
    using wf assms(6,7) unfolding mem_def by (simp add: first_line_conf)
  with assms(8) have slack: "slack cap (first_line_length mem)" by simp
  have run: "parse_file cap after (parser_read_conf getcwd open1 open2 0 alloc p) handle err st
      = conf_loop cap handle mem (length ([] :: string)) True st"
    by (simp add: parse_file_def read mem_def)
  have mem: "mem = [] @ conf_file es nl @ NUL # (replicate m NUL @ after)" by (simp add: mem_def)
  show "parse_file cap after (parser_read_conf getcwd open1 open2 0 alloc p) handle err st
        = apply_entries handle es st" if "LF \<in> set after"
    unfolding run using that by (intro conf_loop_entries [OF ne wf _ mem slack]) simp
  show "parse_file cap after (parser_read_conf getcwd open1 open2 0 alloc p) handle err st = Fault Oob_Read"
    if "LF \<notin> set after" "all_continue handle es st"
    unfolding run using that by (intro conf_loop_runs_off [OF ne wf _ mem slack]) simp_all
qed

section \<open>The interface of a configuration consumer\<close>

text \<open>A handler of entries that keeps an invariant of its state; then every run does.\<close>

locale conf_consumer =
  fixes handle :: "string \<Rightarrow> string \<Rightarrow> 'a \<Rightarrow> 'a key_step outcome"
    and inv :: "'a \<Rightarrow> bool"
  assumes continue_inv: "inv st \<Longrightarrow> handle k v st = Ret (Continue st') \<Longrightarrow> inv st'"
    and break_inv: "inv st \<Longrightarrow> handle k v st = Ret (Break st') \<Longrightarrow> inv st'"
begin

lemma apply_entries_inv: "inv st \<Longrightarrow> apply_entries handle es st = Ret (rc, st') \<Longrightarrow> inv st'"
proof (induction es arbitrary: st)
  case Nil
  then show ?case by simp
next
  case (Cons e es)
  then show ?case
    by (cases "handle (fst e) (snd e) st")
       (auto split: key_step.split_asm intro: continue_inv break_inv)
qed

lemma conf_loop_inv:
  "inv st \<Longrightarrow> conf_loop cap handle mem i flag st = Ret (rc, st') \<Longrightarrow> inv st'"
proof (induction "length mem - i" arbitrary: i flag st rule: less_induct)
  case (less before)
  show ?case
  proof (cases flag)
    case False
    with less.prems show ?thesis by simp
  next
    case True
    with less.prems(2) obtain after flag' r where
      scan: "scan_line mem before flag = Ret (after, flag')" and "\<not> cap after \<le> after - before"
      and r: "parse_line (take (after - before) (drop before mem)) = Ret r"
      and rest: "(case r of Too_Long \<Rightarrow> Ret (-1, st) | No_Delimiter \<Rightarrow> Ret (0, st)
        | Entry key val \<Rightarrow> obind (handle key val st) (\<lambda>k.
            case k of Continue st' \<Rightarrow> conf_loop cap handle mem (Suc after) flag' st'
            | Break st' \<Rightarrow> Ret (0, st') | Give_Up \<Rightarrow> Ret (-1, st))) = Ret (rc, st')"
      by (auto elim!: conf_loop_RetE)
    show ?thesis
    proof (cases r)
      case (Entry key val)
      with rest obtain k where k: "handle key val st = Ret k"
        and res: "(case k of Continue st' \<Rightarrow> conf_loop cap handle mem (Suc after) flag' st'
            | Break st' \<Rightarrow> Ret (0, st') | Give_Up \<Rightarrow> Ret (-1, st)) = Ret (rc, st')"
        by (auto simp: c_simps)
      show ?thesis
      proof (cases k)
        case (Continue st1)
        with k have "inv st1" using continue_inv [OF less.prems(1), of key val st1] by simp
        then show ?thesis
          using less.hyps [of "Suc after" st1 flag'] scan_line_after [OF scan] res Continue by auto
      qed (use res k less.prems(1) break_inv in \<open>auto\<close>)
    qed (use rest less.prems(1) in auto)
  qed
qed

lemma parse_file_inv:
  "inv st \<Longrightarrow> parse_file cap after b handle err st = Ret (rc, st') \<Longrightarrow> inv st'"
  by (auto simp: parse_file_def c_simps dest: conf_loop_inv split: option.splits)

end

section \<open>Properties\<close>

text \<open>
  Claim C17: when the line counter starts at 0, the directory and the file can be read and
  memory is there, a file whose lines are shorter than 168 bytes is read completely and
  followed by at least one zero byte of the buffer.
\<close>

theorem parser_read_conf_complete:
  assumes "getcwd = Some cwd" and "open1 (cwd @ p) = Some content" and "open2 (cwd @ p) = Some content"
    and "\<forall>l \<in> set (file_lines content). length l < PARSER_FILE_STROKE_MAX_LEN" and "nul_free content"
    and "PARSER_FILE_STROKE_MAX_LEN * (count_list content LF + 1) < 2 ^ 64"
    and "alloc (PARSER_FILE_STROKE_MAX_LEN * (count_list content LF + 1))"
  shows "\<exists>buffer. parser_read_conf getcwd open1 open2 0 alloc p = Ret (Some buffer)
           \<and> cstring buffer = Some content
           \<and> length buffer = PARSER_FILE_STROKE_MAX_LEN * length (file_lines content)"
proof -
  define n where "n = PARSER_FILE_STROKE_MAX_LEN * (count_list content LF + 1)"
  have r: "parser_read_conf getcwd open1 open2 0 alloc p
             = Ret (Some (content @ replicate (n - length content) NUL))" and lt: "length content < n"
    using parser_read_conf_fits [of getcwd cwd open1 p content open2 n alloc] assms
    unfolding n_def by blast+
  from lt obtain m where m: "n - length content = Suc m" by (metis Suc_diff_Suc)
  have "length (content @ replicate (n - length content) NUL) = n" using lt by simp
  then show ?thesis
    using r m assms(5) by (simp add: n_def file_lines_count)
qed

theorem parser_read_conf_complete_witness:
  "\<exists>buffer. parser_read_conf (Some ''/b'') (\<lambda>p. if p = ''/b/c'' then Some ''k: v'' else None)
       (\<lambda>p. if p = ''/b/c'' then Some ''k: v'' else None) 0 (\<lambda>n. n = 168) ''/c'' = Ret (Some buffer)
     \<and> cstring buffer = Some ''k: v'' \<and> length buffer = 168"
  using parser_read_conf_complete [of "Some ''/b''" "''/b''"
      "\<lambda>p. if p = ''/b/c'' then Some ''k: v'' else None" "''/c''" "''k: v''"
      "\<lambda>p. if p = ''/b/c'' then Some ''k: v'' else None" "\<lambda>n. n = 168"]
  by (simp add: PARSER_FILE_STROKE_MAX_LEN_def)

text \<open>
  A file that is longer than its buffer (168 bytes per line) is not read: the
  second block is stored over the first, so the buffer starts with what should have been its
  continuation and has no terminator.
\<close>

theorem parser_read_conf_overwrites:
  assumes "getcwd = Some cwd" and "open1 (cwd @ p) = Some content" and "open2 (cwd @ p) = Some content"
    and "n = PARSER_FILE_STROKE_MAX_LEN * (count_list content LF + 1)" and "n < 2 ^ 64" and "alloc n"
    and "n < length content" and "length content \<le> 2 * n" and "nul_free content"
  shows "\<exists>buffer. parser_read_conf getcwd open1 open2 0 alloc p = Ret (Some buffer)
           \<and> take (length content - n) buffer = drop n content \<and> length buffer = n
           \<and> cstring buffer = None"
proof -
  let ?b = "drop n content @ drop (length content - n) (take n content)"
  have "int PARSER_FILE_STROKE_MAX_LEN * (0 + int (count_list content LF) + 1) = int n"
    by (simp add: assms(4) algebra_simps)
  then have "nat ((int PARSER_FILE_STROKE_MAX_LEN * (0 + int (count_list content LF) + 1)) mod 2 ^ 64) = n"
    using assms(5) by (simp add: nat_mod_as_int)
  then have "parser_read_conf getcwd open1 open2 0 alloc p = Ret (Some ?b)"
    using assms by (simp add: parser_read_conf_def fread_loop_two Let_def)
  moreover have "NUL \<notin> set ?b"
    using assms(9) by (auto simp: nul_free_def dest: in_set_dropD in_set_takeD)
  ultimately show ?thesis using assms(7,8) by (simp add: cstring_def)
qed

theorem parser_read_conf_overwrites_witness:
  "\<exists>buffer. parser_read_conf (Some []) (\<lambda>_. Some (replicate 168 CHR ''a'' @ ''bc''))
       (\<lambda>_. Some (replicate 168 CHR ''a'' @ ''bc'')) 0 (\<lambda>_. True) ''/c'' = Ret (Some buffer)
     \<and> take 2 buffer = ''bc'' \<and> cstring buffer = None"
proof -
  have "count_list (replicate 168 CHR ''a'' @ ''bc'') LF = 0"
    by (simp add: count_list_0_iff)
  moreover have "nul_free (replicate 168 CHR ''a'' @ ''bc'')"
    by (simp add: nul_free_def)
  ultimately show ?thesis
    using parser_read_conf_overwrites [of "Some []" "[]" "\<lambda>_. Some (replicate 168 CHR ''a'' @ ''bc'')" "''/c''"
        "replicate 168 CHR ''a'' @ ''bc''" "\<lambda>_. Some (replicate 168 CHR ''a'' @ ''bc'')" 168 "\<lambda>_. True"]
    by (auto simp: PARSER_FILE_STROKE_MAX_LEN_def)
qed

end
