(* ===== verification/Net_Address.thy ===== *)
theory Net_Address
  imports C_Prelude
begin

text \<open>
  The two address functions of the C library that the services call: \<open>inet_aton\<close> (as glibc
  has it: one to four parts, each decimal, octal or hexadecimal, trailing white space allowed)
  and \<open>inet_ntoa\<close>.  An address is the 32-bit value \<open>s_addr\<close> that the program computes with:
  its bytes are in network order in memory, so the first octet is the least significant byte.
\<close>

definition is_oct :: "char \<Rightarrow> bool" where
  "is_oct c \<longleftrightarrow> 48 \<le> (of_char c :: nat) \<and> (of_char c :: nat) \<le> 55"

definition is_hex :: "char \<Rightarrow> bool" where
  "is_hex c \<longleftrightarrow> is_digit c \<or> (65 \<le> (of_char c :: nat) \<and> (of_char c :: nat) \<le> 70)
                \<or> (97 \<le> (of_char c :: nat) \<and> (of_char c :: nat) \<le> 102)"

definition hex_val :: "char \<Rightarrow> nat" where
  "hex_val c = (let n = of_char c in if n \<le> 57 then n - 48 else if n \<le> 70 then n - 55 else n - 87)"

definition base_val :: "nat \<Rightarrow> string \<Rightarrow> nat" where
  "base_val b s = foldl (\<lambda>v c. b * v + hex_val c) 0 s"

text \<open>\<open>strtoul(s, &end, 0)\<close> at a digit: the value and the rest of the string.\<close>

definition strtoul0 :: "string \<Rightarrow> nat \<times> string" where
  "strtoul0 s =
     (if 2 < length s \<and> s ! 0 = CHR ''0'' \<and> (s ! 1 = CHR ''x'' \<or> s ! 1 = CHR ''X'') \<and> is_hex (s ! 2)
      then (base_val 16 (takeWhile is_hex (drop 2 s)), dropWhile is_hex (drop 2 s))
      else if s \<noteq> [] \<and> hd s = CHR ''0''
      then (base_val 8 (takeWhile is_oct s), dropWhile is_oct s)
      else (dec_val (takeWhile is_digit s), dropWhile is_digit s))"

lemma strtoul0_rest: "length (snd (strtoul0 s)) \<le> length s"
proof -
  have "length (dropWhile P t) \<le> length s" if "length t \<le> length s" for P and t :: string
    using that length_dropWhile_le [of P t] by linarith
  then show ?thesis by (simp add: strtoul0_def)
qed

text \<open>The parts before the last dot, the value of the last part and what follows it.\<close>

function aton_loop :: "nat list \<Rightarrow> string \<Rightarrow> (nat list \<times> nat \<times> string) option" where
  "aton_loop acc s =
     (if s = [] \<or> \<not> is_digit (hd s) then None
      else if fst (strtoul0 s) > 4294967295 then None
      else if snd (strtoul0 s) \<noteq> [] \<and> hd (snd (strtoul0 s)) = CHR ''.'' then
        if length acc > 2 \<or> fst (strtoul0 s) > 255 then None
        else aton_loop (acc @ [fst (strtoul0 s)]) (tl (snd (strtoul0 s)))
      else Some (acc, strtoul0 s))"
  by pat_completeness auto
termination
proof (relation "measure (\<lambda>(acc, s). length s)", goal_cases)
  case 1
  then show ?case by simp
next
  case (2 acc s)
  then show ?case using strtoul0_rest [of s] by (cases "snd (strtoul0 s)") auto
qed

declare aton_loop.simps [simp del]

definition addr_of_bytes :: "nat list \<Rightarrow> u32" where
  "addr_of_bytes bs = le32_of (map char_of bs)"

definition inet_aton :: "string \<Rightarrow> u32 option" where
  "inet_aton s =
     (case aton_loop [] s of None \<Rightarrow> None
      | Some (acc, v, r) \<Rightarrow>
          if r \<noteq> [] \<and> \<not> c_isspace (hd r) then None
          else if v > [4294967295, 16777215, 65535, 255] ! length acc then None
          else Some (addr_of_bytes
                 (acc @ drop (length acc) [v div 16777216, v div 65536 mod 256, v div 256 mod 256, v mod 256])))"

definition octet :: "u32 \<Rightarrow> nat \<Rightarrow> nat" where
  "octet a i = unat a div 256 ^ i mod 256"

definition inet_ntoa :: "u32 \<Rightarrow> string" where
  "inet_ntoa a = nat_dec (octet a 0) @ ''.'' @ nat_dec (octet a 1) @ ''.'' @
                 nat_dec (octet a 2) @ ''.'' @ nat_dec (octet a 3)"

section \<open>The round trip\<close>

lemma octet_less [simp]: "octet a i < 256"
  by (simp add: octet_def)

lemma addr_of_octets: "addr_of_bytes [octet a 0, octet a 1, octet a 2, octet a 3] = a"
proof -
  have "addr_of_bytes [octet a 0, octet a 1, octet a 2, octet a 3] = le32_of (le32_bytes a @ [])"
    by (simp add: addr_of_bytes_def octet_def le32_of_def le32_bytes_def byte_def
        numeral_2_eq_2 numeral_3_eq_3)
  then show ?thesis by (simp only: le32_of_bytes)
qed

lemma dropWhile_digits:
  "\<forall>c \<in> set ds. is_digit c \<Longrightarrow> (rest = [] \<or> \<not> is_digit (hd rest)) \<Longrightarrow>
     dropWhile is_digit (ds @ rest) = rest"
  by (cases rest) (auto simp: dropWhile_append2)

lemma nat_dec_0: "nat_dec 0 = ''0''"
  by code_simp

lemma strtoul0_nat_dec:
  assumes "rest = [] \<or> hd rest = CHR ''.''"
  shows "strtoul0 (nat_dec n @ rest) = (n, rest)"
proof (cases "n = 0")
  case True
  have "\<not> is_oct (CHR ''.'')" and "is_oct (CHR ''0'')" and "hex_val (CHR ''0'') = 0"
    by (simp_all add: is_oct_def hex_val_def)
  then show ?thesis
    using assms by (cases rest) (auto simp: True nat_dec_0 strtoul0_def base_val_def)
next
  case False
  then have hd: "hd (nat_dec n) \<noteq> CHR ''0''" by (simp add: nat_dec_hd)
  obtain d ds where ds: "nat_dec n = d # ds" using nat_dec_nonempty by (meson neq_Nil_conv)
  have "\<not> is_digit (CHR ''.'')" by (simp add: is_digit_def)
  with assms have rest: "rest = [] \<or> \<not> is_digit (hd rest)" by auto
  have "strtoul0 (nat_dec n @ rest) =
      (dec_val (takeWhile is_digit (nat_dec n @ rest)), dropWhile is_digit (nat_dec n @ rest))"
    using hd by (simp add: strtoul0_def ds)
  also have "\<dots> = (n, rest)"
    by (simp add: takeWhile_digits [OF nat_dec_digits rest] dropWhile_digits [OF nat_dec_digits rest]
        del: takeWhile_eq_Nil_iff)
  finally show ?thesis .
qed

lemma aton_loop_dot:
  assumes "n < 256" and "length acc \<le> 2"
  shows "aton_loop acc (nat_dec n @ CHR ''.'' # rest) = aton_loop (acc @ [n]) rest"
proof -
  have "is_digit (hd (nat_dec n @ CHR ''.'' # rest))"
    using nat_dec_digits [of n] by (cases "nat_dec n") auto
  moreover have "strtoul0 (nat_dec n @ CHR ''.'' # rest) = (n, CHR ''.'' # rest)"
    by (simp add: strtoul0_nat_dec)
  ultimately show ?thesis using assms by (subst aton_loop.simps) simp
qed

lemma aton_loop_last:
  assumes "n < 256"
  shows "aton_loop acc (nat_dec n) = Some (acc, n, [])"
proof -
  have "is_digit (hd (nat_dec n))"
    using nat_dec_digits [of n] by (cases "nat_dec n") auto
  moreover have "strtoul0 (nat_dec n) = (n, [])"
    using strtoul0_nat_dec [of "[]" n] by simp
  ultimately show ?thesis using assms by (subst aton_loop.simps) simp
qed

lemma inet_aton_ntoa: "inet_aton (inet_ntoa a) = Some a"
proof -
  have "aton_loop [] (inet_ntoa a) = Some ([octet a 0, octet a 1, octet a 2], octet a 3, [])"
    by (simp add: inet_ntoa_def aton_loop_dot aton_loop_last)
  moreover have "octet a 3 \<le> 255" using octet_less [of a 3] by linarith
  ultimately show ?thesis
    using addr_of_octets [of a] by (simp add: inet_aton_def)
qed

lemma inet_ntoa_chars: "c \<in> set (inet_ntoa a) \<Longrightarrow> is_digit c \<or> c = CHR ''.''"
  using nat_dec_digits by (auto simp: inet_ntoa_def)

lemma inet_ntoa_length: "length (inet_ntoa a) \<le> 15"
proof -
  have "length (nat_dec (octet a i)) \<le> 3" for i
  proof (rule nat_dec_length_le)
    show "octet a i < 10 ^ 3" by (rule less_le_trans [OF octet_less]) simp
  qed simp
  from this [of 0] this [of 1] this [of 2] this [of 3] show ?thesis
    by (simp add: inet_ntoa_def)
qed

end
