(* ===== verification/Firewall_Config.thy ===== *)
theory Firewall_Config
  imports Config_Parser Net_Address
begin

text \<open>
  \<open>fw_parse_and_serialize_config\<close> of
  \<open>services/firewall_service/helpers_firewall_common.c\<close>: the attributes of the firewall
  service and what the line loop does with each key.  The main results are the round trip
  (the attributes printed as a configuration file are read back), its limits, and that the
  attribute arrays never change their length.
\<close>

section \<open>Data\<close>

definition FW_INTERFACE_DEFINE :: string where "FW_INTERFACE_DEFINE = ''interface''"
definition FW_FILTER_DEFINE :: string where "FW_FILTER_DEFINE = ''filter''"
definition FW_PACKET_NUM_DEFINE :: string where "FW_PACKET_NUM_DEFINE = ''packet_num''"
definition FW_PATH_TO_CONFIG :: string where
  "FW_PATH_TO_CONFIG = ''/services/firewall_service/config.conf''"
definition FW_UNTRUSTED_NETWORK_DEFINE :: string where "FW_UNTRUSTED_NETWORK_DEFINE = ''untrusted_net''"
definition FW_TRUSTED_NETWORK_DEFINE :: string where "FW_TRUSTED_NETWORK_DEFINE = ''trusted_net''"
definition FW_IP_PREFIX_MAXLEN :: nat where "FW_IP_PREFIX_MAXLEN = 15"
definition FW_MIN_BUF_SIZE :: nat where "FW_MIN_BUF_SIZE = 16"
definition FW_SNIFF_INF_COUNT :: int where "FW_SNIFF_INF_COUNT = -1"
definition FW_CONFIG_INF_PCKS :: string where "FW_CONFIG_INF_PCKS = ''inf''"
definition FW_CONFIG_INF_PCKS_LEN :: nat where "FW_CONFIG_INF_PCKS_LEN = 3"
definition FW_SERVICE_ERROR_CODE :: int where "FW_SERVICE_ERROR_CODE = -1"
definition FW_SERVICE_NORMAL_CODE :: int where "FW_SERVICE_NORMAL_CODE = 0"

lemmas fw_keys = FW_INTERFACE_DEFINE_def FW_FILTER_DEFINE_def FW_PACKET_NUM_DEFINE_def
  FW_UNTRUSTED_NETWORK_DEFINE_def FW_TRUSTED_NETWORK_DEFINE_def

record fw_network =
  ip_prefix :: u32
  netmask :: u32

record fw_config_attrs =
  fw_attr_interface :: string
  fw_attr_filter :: string
  fw_untrusted_network :: fw_network
  fw_trusted_network :: fw_network
  fw_attr_pcts_num :: int

text \<open>The static variable the service starts with.\<close>

definition fw_attrs_init :: fw_config_attrs where
  "fw_attrs_init =
     \<lparr>fw_attr_interface = replicate FW_MIN_BUF_SIZE NUL, fw_attr_filter = replicate FW_MIN_BUF_SIZE NUL,
      fw_untrusted_network = \<lparr>ip_prefix = 0, netmask = 0\<rparr>,
      fw_trusted_network = \<lparr>ip_prefix = 0, netmask = 0\<rparr>, fw_attr_pcts_num = 0\<rparr>"

section \<open>Entries\<close>

text \<open>
  \<open>prefix/mask\<close>: the prefix goes to an array of 15 bytes; \<open>inet_aton\<close> reads past it when
  all of them are used.  Without a slash \<open>strlen(NULL)\<close> is evaluated.  An address that
  does not parse ends the process.
\<close>

definition fw_parse_network :: "string \<Rightarrow> fw_network \<Rightarrow> fw_network outcome" where
  "fw_parse_network val net =
     obind (oget Null_Deref (strchr val PARSER_SLASH)) (\<lambda>ip_prefix_len.
       if ip_prefix_len > FW_IP_PREFIX_MAXLEN then Fault Oob_Write
       else
         let net' = net\<lparr>netmask := word_of_int (c_atoi (drop (ip_prefix_len + 1) val))\<rparr> in
         if ip_prefix_len = FW_IP_PREFIX_MAXLEN then Fault Oob_Read
         else (case inet_aton (take ip_prefix_len val) of
                 None \<Rightarrow> Exit FW_SERVICE_ERROR_CODE
               | Some a \<Rightarrow> Ret (net'\<lparr>ip_prefix := a\<rparr>)))"

definition fw_handle_entry ::
  "string \<Rightarrow> string \<Rightarrow> fw_config_attrs \<Rightarrow> fw_config_attrs key_step outcome" where
  "fw_handle_entry before_value val attrs =
     (if before_value = FW_INTERFACE_DEFINE then
        obind (oget Oob_Write (strncpy_len (fw_attr_interface attrs) val))
          (\<lambda>b. Ret (Continue (attrs\<lparr>fw_attr_interface := b\<rparr>)))
      else if before_value = FW_FILTER_DEFINE then
        obind (oget Oob_Write (strncpy_len (fw_attr_filter attrs) val))
          (\<lambda>b. Ret (Continue (attrs\<lparr>fw_attr_filter := b\<rparr>)))
      else if before_value = FW_PACKET_NUM_DEFINE then
        Ret (Continue (attrs\<lparr>fw_attr_pcts_num :=
          (if strncmp_eq FW_CONFIG_INF_PCKS val FW_CONFIG_INF_PCKS_LEN then FW_SNIFF_INF_COUNT
           else c_atoi val)\<rparr>))
      else if before_value = FW_TRUSTED_NETWORK_DEFINE then
        obind (fw_parse_network val (fw_trusted_network attrs))
          (\<lambda>n. Ret (Continue (attrs\<lparr>fw_trusted_network := n\<rparr>)))
      else if before_value = FW_UNTRUSTED_NETWORK_DEFINE then
        obind (fw_parse_network val (fw_untrusted_network attrs))
          (\<lambda>n. Ret (Continue (attrs\<lparr>fw_untrusted_network := n\<rparr>)))
      else Ret (Break attrs))"

text \<open>\<open>after\<close> is the readable memory that follows the buffer.\<close>

definition fw_parse_and_serialize_config ::
  "(nat \<Rightarrow> nat) \<Rightarrow> string \<Rightarrow> string option \<Rightarrow> (string \<Rightarrow> string option) \<Rightarrow> (string \<Rightarrow> string option) \<Rightarrow>
     int \<Rightarrow> (nat \<Rightarrow> bool) \<Rightarrow> fw_config_attrs \<Rightarrow> (int \<times> fw_config_attrs) outcome" where
  "fw_parse_and_serialize_config cap after getcwd open1 open2 garbage alloc attrs =
     obind (parser_read_conf getcwd open1 open2 garbage alloc FW_PATH_TO_CONFIG) (\<lambda>b.
       case b of None \<Rightarrow> Ret (FW_SERVICE_ERROR_CODE, attrs)
       | Some buffer \<Rightarrow> conf_loop cap fw_handle_entry (buffer @ after) 0 True attrs)"

section \<open>The arrays keep their length\<close>

definition fw_attrs_wf :: "fw_config_attrs \<Rightarrow> bool" where
  "fw_attrs_wf a \<longleftrightarrow>
     length (fw_attr_interface a) = FW_MIN_BUF_SIZE \<and> length (fw_attr_filter a) = FW_MIN_BUF_SIZE"

lemma fw_attrs_init_wf: "fw_attrs_wf fw_attrs_init"
  by (simp add: fw_attrs_wf_def fw_attrs_init_def)

lemma fw_handle_wf:
  "fw_attrs_wf a \<Longrightarrow> fw_handle_entry k v a = Ret (Continue a') \<Longrightarrow> fw_attrs_wf a'"
  "fw_attrs_wf a \<Longrightarrow> fw_handle_entry k v a = Ret (Break a') \<Longrightarrow> fw_attrs_wf a'"
  by (auto simp: fw_handle_entry_def fw_attrs_wf_def c_simps dest: strncpy_len_length split: if_splits)

interpretation fw_conf: conf_consumer fw_handle_entry fw_attrs_wf
  by unfold_locales (auto dest: fw_handle_wf)

section \<open>The round trip\<close>

text \<open>The attributes as text, in the form the parser reads.\<close>

definition network_text :: "fw_network \<Rightarrow> string" where
  "network_text n = inet_ntoa (ip_prefix n) @ [PARSER_SLASH] @ nat_dec (unat (netmask n))"

definition fw_entries ::
  "string \<Rightarrow> string \<Rightarrow> nat \<Rightarrow> fw_network \<Rightarrow> fw_network \<Rightarrow> (string \<times> string) list" where
  "fw_entries iface flt num untrusted trusted =
     [(FW_INTERFACE_DEFINE, iface), (FW_FILTER_DEFINE, flt), (FW_PACKET_NUM_DEFINE, nat_dec num),
      (FW_UNTRUSTED_NETWORK_DEFINE, network_text untrusted),
      (FW_TRUSTED_NETWORK_DEFINE, network_text trusted)]"

text \<open>Text that a line can hold.\<close>

definition line_text :: "string \<Rightarrow> bool" where
  "line_text s \<longleftrightarrow> nul_free s \<and> LF \<notin> set s"

definition network_ok :: "fw_network \<Rightarrow> bool" where
  "network_ok n \<longleftrightarrow> length (inet_ntoa (ip_prefix n)) < FW_IP_PREFIX_MAXLEN \<and> unat (netmask n) < 2 ^ 31"

lemma inet_ntoa_no_slash: "PARSER_SLASH \<notin> set (inet_ntoa a)"
  using inet_ntoa_chars [of "CHR ''/''" a] by (auto simp: PARSER_SLASH_def dest: is_digit_not)

lemma fw_parse_network_text:
  assumes "network_ok n"
  shows "fw_parse_network (network_text n) m = Ret n"
proof -
  have slash: "strchr (network_text n) PARSER_SLASH = Some (length (inet_ntoa (ip_prefix n)))"
    using inet_ntoa_no_slash [of "ip_prefix n"] by (simp add: network_text_def)
  have rest: "drop (length (inet_ntoa (ip_prefix n)) + 1) (network_text n) = nat_dec (unat (netmask n))"
    and front: "take (length (inet_ntoa (ip_prefix n))) (network_text n) = inet_ntoa (ip_prefix n)"
    by (simp_all add: network_text_def)
  have mask: "c_atoi (nat_dec (unat (netmask n))) = int (unat (netmask n))"
    using assms c_atoi_nat_dec [of "unat (netmask n)" "[]"] by (simp add: network_ok_def)
  show ?thesis
    using assms slash rest front mask
    by (simp add: fw_parse_network_def network_ok_def inet_aton_ntoa Let_def)
qed

lemma fw_parse_network_15:
  assumes "length (inet_ntoa a) = FW_IP_PREFIX_MAXLEN"
  shows "fw_parse_network (network_text \<lparr>ip_prefix = a, netmask = k\<rparr>) m = Fault Oob_Read"
proof -
  have "strchr (network_text \<lparr>ip_prefix = a, netmask = k\<rparr>) PARSER_SLASH = Some FW_IP_PREFIX_MAXLEN"
    using inet_ntoa_no_slash [of a] assms by (simp add: network_text_def)
  then show ?thesis by (simp add: fw_parse_network_def Let_def)
qed

lemma line_text_digits: "\<forall>c \<in> set s. is_digit c \<or> c = CHR ''.'' \<or> c = CHR ''/'' \<Longrightarrow> line_text s"
  by (auto simp: line_text_def nul_free_def is_digit_def)

lemma network_text_line: "line_text (network_text n)"
  using nat_dec_digits inet_ntoa_chars
  by (intro line_text_digits) (auto simp: network_text_def PARSER_SLASH_def)

lemma nat_dec_line: "line_text (nat_dec n)"
  using nat_dec_digits by (intro line_text_digits) auto

lemma network_text_length: "network_ok n \<Longrightarrow> length (network_text n) \<le> 25"
proof -
  assume "network_ok n"
  then have "length (inet_ntoa (ip_prefix n)) < 15" and "unat (netmask n) < 10 ^ 10"
    by (auto simp: network_ok_def FW_IP_PREFIX_MAXLEN_def)
  moreover from this(2) have "length (nat_dec (unat (netmask n))) \<le> 10"
    by (intro nat_dec_length_le) simp_all
  ultimately show ?thesis by (simp add: network_text_def)
qed

lemma wf_entryI:
  "CHR '':'' \<notin> set k \<Longrightarrow> line_text k \<Longrightarrow> line_text v \<Longrightarrow> length k + length v \<le> 166 \<Longrightarrow> wf_entry (k, v)"
  by (auto simp: wf_entry_def line_text_def entry_text_def PARSER_FILE_STROKE_MAX_LEN_def)

lemma fw_entries_wf:
  assumes "line_text iface" "line_text flt" "length iface \<le> FW_MIN_BUF_SIZE" "length flt \<le> FW_MIN_BUF_SIZE"
    and "num < 2 ^ 31" "network_ok u" "network_ok t"
  shows "\<forall>e \<in> set (fw_entries iface flt num u t). wf_entry e"
proof -
  have "length (nat_dec num) \<le> 10" using assms(5) by (intro nat_dec_length_le) simp_all
  with assms network_text_length [OF assms(6)] network_text_length [OF assms(7)] show ?thesis
    by (auto simp: fw_entries_def fw_keys FW_MIN_BUF_SIZE_def nat_dec_line network_text_line
        intro!: wf_entryI) (auto simp: line_text_def)
qed

lemma nat_dec_not_inf: "\<not> strncmp_eq ''inf'' (nat_dec n) 3"
proof -
  obtain d ds where "nat_dec n = d # ds" and "is_digit d"
    using nat_dec_nonempty nat_dec_digits by (metis list.set_intros(1) neq_Nil_conv)
  then show ?thesis by (auto simp: strncmp_eq_def is_digit_def)
qed

lemma fw_apply_entries:
  assumes "length iface \<le> FW_MIN_BUF_SIZE" "length flt \<le> FW_MIN_BUF_SIZE"
    and "num < 2 ^ 31" "network_ok u" "network_ok t"
  shows "apply_entries fw_handle_entry (fw_entries iface flt num u t) fw_attrs_init =
    Ret (0, \<lparr>fw_attr_interface = iface @ replicate (FW_MIN_BUF_SIZE - length iface) NUL,
             fw_attr_filter = flt @ replicate (FW_MIN_BUF_SIZE - length flt) NUL,
             fw_untrusted_network = u, fw_trusted_network = t, fw_attr_pcts_num = int num\<rparr>)"
proof -
  have num: "c_atoi (nat_dec num) = int num"
    using c_atoi_nat_dec [OF assms(3), of "[]"] by simp
  show ?thesis
    using assms(1,2) num nat_dec_not_inf [of num] fw_parse_network_text [OF assms(4)]
      fw_parse_network_text [OF assms(5)]
    by (simp add: fw_entries_def fw_handle_entry_def fw_keys fw_attrs_init_def padded_def
        FW_CONFIG_INF_PCKS_def FW_CONFIG_INF_PCKS_LEN_def)
qed


lemma fw_entries_ok:
  assumes "line_text iface" "line_text flt" "length iface \<le> FW_MIN_BUF_SIZE" "length flt \<le> FW_MIN_BUF_SIZE"
    and "num < 2 ^ 31" "network_ok u" "network_ok t"
  shows "conf_ok (fw_entries iface flt num u t)"
proof -
  have "length (nat_dec num) \<le> 10" using assms(5) by (intro nat_dec_length_le) simp_all
  then have "\<forall>e \<in> set (fw_entries iface flt num u t). length (entry_text e) < PARSER_FILE_STROKE_MAX_LEN"
    using assms(3,4) network_text_length [OF assms(6)] network_text_length [OF assms(7)]
    by (simp add: fw_entries_def fw_keys FW_MIN_BUF_SIZE_def PARSER_FILE_STROKE_MAX_LEN_def entry_text_def)
  moreover note fw_entries_wf [OF assms]
  moreover have "length (fw_entries iface flt num u t) = 5" and "fw_entries iface flt num u t \<noteq> []"
    by (simp_all add: fw_entries_def)
  ultimately show ?thesis by (simp add: conf_ok_def PARSER_FILE_STROKE_MAX_LEN_def)
qed

text \<open>From the file on disk to the attributes, for any entries.\<close>

lemma fw_parse_is_parse_file:
  "fw_parse_and_serialize_config cap after getcwd open1 open2 garbage alloc attrs =
     parse_file cap after (parser_read_conf getcwd open1 open2 garbage alloc FW_PATH_TO_CONFIG)
       fw_handle_entry FW_SERVICE_ERROR_CODE attrs"
  by (simp add: fw_parse_and_serialize_config_def parse_file_def)

lemmas fw_parse_file = conf_parse_file [where p = FW_PATH_TO_CONFIG and handle = fw_handle_entry
    and err = FW_SERVICE_ERROR_CODE, folded fw_parse_is_parse_file]

lemma fw_parse_wf:
  "fw_attrs_wf attrs \<Longrightarrow>
     fw_parse_and_serialize_config cap after getcwd open1 open2 garbage alloc attrs = Ret (rc, attrs') \<Longrightarrow>
     fw_attrs_wf attrs'"
  unfolding fw_parse_is_parse_file by (rule fw_conf.parse_file_inv)

section \<open>Properties\<close>

text \<open>
  Claim C8: printing and parsing.  A configuration file with the five keys is read back into
  exactly the attributes it was printed from, with and without a final newline, when the
  prefixes have fewer than 15 characters, the compiler reserves a byte more than asked for
  the first line, and a newline is found in the memory behind the buffer.
\<close>

theorem fw_config_roundtrip:
  assumes "line_text iface" "line_text flt" "length iface \<le> FW_MIN_BUF_SIZE" "length flt \<le> FW_MIN_BUF_SIZE"
    and "num < 2 ^ 31" "network_ok u" "network_ok t"
    and "getcwd = Some cwd"
    and "open1 (cwd @ FW_PATH_TO_CONFIG) = Some (conf_file (fw_entries iface flt num u t) nl)"
    and "open2 (cwd @ FW_PATH_TO_CONFIG) = Some (conf_file (fw_entries iface flt num u t) nl)"
    and "\<forall>n. alloc n" and "slack cap (length (entry_text (FW_INTERFACE_DEFINE, iface)))"
    and "LF \<in> set after"
  shows "fw_parse_and_serialize_config cap after getcwd open1 open2 0 alloc fw_attrs_init =
    Ret (0, \<lparr>fw_attr_interface = iface @ replicate (FW_MIN_BUF_SIZE - length iface) NUL,
             fw_attr_filter = flt @ replicate (FW_MIN_BUF_SIZE - length flt) NUL,
             fw_untrusted_network = u, fw_trusted_network = t, fw_attr_pcts_num = int num\<rparr>)"
proof -
  have split: "fw_entries iface flt num u t = (FW_INTERFACE_DEFINE, iface) # tl (fw_entries iface flt num u t)"
    and ne: "tl (fw_entries iface flt num u t) \<noteq> []" by (simp_all add: fw_entries_def)
  show ?thesis
    unfolding fw_apply_entries [OF assms(3-7), symmetric]
    using fw_parse_file(1) [of "fw_entries iface flt num u t" getcwd cwd open1 nl open2 alloc _ _ cap after
        fw_attrs_init] fw_entries_ok [OF assms(1-7)] assms(8-13) split ne by blast
qed

text \<open>gcc keeps stack arrays in units of 16 bytes.\<close>

definition gcc_cap :: "nat \<Rightarrow> nat" where
  "gcc_cap n = 16 * ((n + 15) div 16)"

lemma gcc_cap_slack: "n mod 16 \<noteq> 0 \<Longrightarrow> slack gcc_cap n"
  unfolding slack_def gcc_cap_def by presburger

text \<open>The configuration file of the repository.\<close>

definition repo_config :: string where
  "repo_config =
     ''interface: eno1'' @ [LF] @ ''filter: ip'' @ [LF] @ ''packet_num: 10'' @ [LF] @
     ''untrusted_net: 192.168.0.0/24'' @ [LF] @ ''trusted_net: 192.168.1.0/24''"

lemma sample_decs:
  "nat_dec 24 = ''24''" "nat_dec 10 = ''10''" "nat_dec 192 = ''192''" "nat_dec 168 = ''168''"
  "nat_dec (Suc 0) = ''1''" "nat_dec 100 = ''100''" "nat_dec 200 = ''200''"
  by code_simp+

lemma repo_networks: "inet_ntoa 43200 = ''192.168.0.0''" "inet_ntoa 108736 = ''192.168.1.0''"
  by (simp_all add: inet_ntoa_def octet_def sample_decs nat_dec_0)

lemma repo_config_entries:
  "repo_config = conf_file (fw_entries ''eno1'' ''ip'' 10 \<lparr>ip_prefix = 43200, netmask = 24\<rparr>
                              \<lparr>ip_prefix = 108736, netmask = 24\<rparr>) False"
  by (simp add: repo_config_def conf_file_def fw_entries_def entry_text_def network_text_def
      repo_networks sample_decs fw_keys PARSER_SLASH_def)

lemma repo_networks_ok:
  "network_ok \<lparr>ip_prefix = 43200, netmask = 24\<rparr>" "network_ok \<lparr>ip_prefix = 108736, netmask = 24\<rparr>"
  by (simp_all add: network_ok_def repo_networks FW_IP_PREFIX_MAXLEN_def)

lemma repo_slack: "slack gcc_cap (length (entry_text (FW_INTERFACE_DEFINE, ''eno1'')))"
  by (rule gcc_cap_slack) (simp add: entry_text_def FW_INTERFACE_DEFINE_def)

theorem fw_config_roundtrip_witness:
  "fw_parse_and_serialize_config gcc_cap [LF] (Some ''/b'') (\<lambda>_. Some repo_config) (\<lambda>_. Some repo_config)
     0 (\<lambda>_. True) fw_attrs_init =
   Ret (0, \<lparr>fw_attr_interface = ''eno1'' @ replicate 12 NUL, fw_attr_filter = ''ip'' @ replicate 14 NUL,
            fw_untrusted_network = \<lparr>ip_prefix = 43200, netmask = 24\<rparr>,
            fw_trusted_network = \<lparr>ip_prefix = 108736, netmask = 24\<rparr>, fw_attr_pcts_num = 10\<rparr>)"
  using fw_config_roundtrip [of "''eno1''" "''ip''" 10 "\<lparr>ip_prefix = 43200, netmask = 24\<rparr>"
      "\<lparr>ip_prefix = 108736, netmask = 24\<rparr>" "Some ''/b''" "''/b''" "\<lambda>_. Some repo_config" False
      "\<lambda>_. Some repo_config" "\<lambda>_. True" gcc_cap "[LF]"] repo_networks_ok repo_slack
  by (simp add: repo_config_entries line_text_def FW_MIN_BUF_SIZE_def)

text \<open>
  Claim C18: the same files, with no newline in the memory behind the buffer, make the parser
  read outside its buffer: the line scan notes the terminator but does not stop at it.
\<close>

theorem fw_config_overread:
  assumes "line_text iface" "line_text flt" "length iface \<le> FW_MIN_BUF_SIZE" "length flt \<le> FW_MIN_BUF_SIZE"
    and "num < 2 ^ 31" "network_ok u" "network_ok t"
    and "getcwd = Some cwd"
    and "open1 (cwd @ FW_PATH_TO_CONFIG) = Some (conf_file (fw_entries iface flt num u t) nl)"
    and "open2 (cwd @ FW_PATH_TO_CONFIG) = Some (conf_file (fw_entries iface flt num u t) nl)"
    and "\<forall>n. alloc n" and "slack cap (length (entry_text (FW_INTERFACE_DEFINE, iface)))"
    and "LF \<notin> set after"
  shows "fw_parse_and_serialize_config cap after getcwd open1 open2 0 alloc fw_attrs_init = Fault Oob_Read"
proof -
  have split: "fw_entries iface flt num u t = (FW_INTERFACE_DEFINE, iface) # tl (fw_entries iface flt num u t)"
    and ne: "tl (fw_entries iface flt num u t) \<noteq> []" by (simp_all add: fw_entries_def)
  have "all_continue fw_handle_entry (fw_entries iface flt num u t) fw_attrs_init"
    using assms(3,4) fw_parse_network_text [OF assms(6)] fw_parse_network_text [OF assms(7)]
    by (simp add: fw_entries_def fw_handle_entry_def fw_keys fw_attrs_init_def padded_def)
  then show ?thesis
    using fw_parse_file(2) [of "fw_entries iface flt num u t" getcwd cwd open1 nl open2 alloc _ _ cap after
        fw_attrs_init] fw_entries_ok [OF assms(1-7)] assms(8-13) split ne by blast
qed

theorem fw_config_overread_witness:
  "fw_parse_and_serialize_config gcc_cap [] (Some ''/b'') (\<lambda>_. Some repo_config) (\<lambda>_. Some repo_config)
     0 (\<lambda>_. True) fw_attrs_init = Fault Oob_Read"
  using fw_config_overread [of "''eno1''" "''ip''" 10 "\<lparr>ip_prefix = 43200, netmask = 24\<rparr>"
      "\<lparr>ip_prefix = 108736, netmask = 24\<rparr>" "Some ''/b''" "''/b''" "\<lambda>_. Some repo_config" False
      "\<lambda>_. Some repo_config" "\<lambda>_. True" gcc_cap "[]"] repo_networks_ok repo_slack
  by (simp add: repo_config_entries line_text_def FW_MIN_BUF_SIZE_def)

text \<open>
  With arrays of exactly the size that is asked for, the parser never succeeds:
  whatever the file, the memory and the state, it faults or reports that it could not read.
\<close>

theorem fw_config_iso_c:
  assumes "fw_parse_and_serialize_config (\<lambda>n. n) after getcwd open1 open2 garbage alloc attrs = Ret (rc, attrs')"
  shows "rc = FW_SERVICE_ERROR_CODE \<and> attrs' = attrs"
  using assms
  by (auto simp: fw_parse_and_serialize_config_def conf_loop_iso_c c_simps split: option.splits)

theorem fw_config_iso_c_witness:
  "fw_parse_and_serialize_config (\<lambda>n. n) [] None (\<lambda>_. None) (\<lambda>_. None) 0 (\<lambda>_. True) fw_attrs_init
     = Ret (FW_SERVICE_ERROR_CODE, fw_attrs_init)"
proof -
  obtain rc a where r: "fw_parse_and_serialize_config (\<lambda>n. n) [] None (\<lambda>_. None) (\<lambda>_. None) 0 (\<lambda>_. True)
      fw_attrs_init = Ret (rc, a)"
    by (simp add: fw_parse_and_serialize_config_def parser_read_conf_def)
  with fw_config_iso_c [OF r] show ?thesis by simp
qed

text \<open>
  A network whose prefix takes all 15 characters (as 192.168.100.200 does) is not
  parsed: the array that holds it has no room for a terminator, and \<open>inet_aton\<close> reads past it.
\<close>

theorem fw_prefix_15_overread:
  assumes "length (inet_ntoa a) = FW_IP_PREFIX_MAXLEN"
    and "key = FW_TRUSTED_NETWORK_DEFINE \<or> key = FW_UNTRUSTED_NETWORK_DEFINE"
  shows "fw_handle_entry key (network_text \<lparr>ip_prefix = a, netmask = k\<rparr>) attrs = Fault Oob_Read"
  using fw_parse_network_15 [OF assms(1)] assms(2) by (auto simp: fw_handle_entry_def fw_keys)

theorem fw_prefix_15_overread_witness:
  "fw_handle_entry FW_TRUSTED_NETWORK_DEFINE (network_text \<lparr>ip_prefix = 3362040000, netmask = 24\<rparr>) fw_attrs_init
     = Fault Oob_Read"
proof -
  have "inet_ntoa 3362040000 = ''192.168.100.200''"
    by (simp add: inet_ntoa_def octet_def sample_decs)
  then show ?thesis
    by (intro fw_prefix_15_overread) (simp_all add: FW_IP_PREFIX_MAXLEN_def)
qed

end
