(* ===== verification/Iptables.thy ===== *)
theory Iptables
  imports Firewall_Config
begin

unbundle bit_operations_syntax

text \<open>
  The iptables part of \<open>services/firewall_service/helpers_firewall_common.c\<close>: the commands
  handed to \<open>system\<close>.  The state is the list of the commands issued so far; \<open>sys hist cmd\<close> is
  what \<open>system\<close> returns for a command after the commands \<open>hist\<close> (a wait status, negative
  only when no shell could be started).
\<close>

definition FW_BUF_SIZE :: nat where "FW_BUF_SIZE = 512"
definition UNTRUSTED_ZONE_RULES :: string where "UNTRUSTED_ZONE_RULES = ''UNTRUSTED''"
definition TRUSTED_ZONE_RULES :: string where "TRUSTED_ZONE_RULES = ''TRUSTED''"

type_synonym shell = "string list \<Rightarrow> string \<Rightarrow> int"

text \<open>\<open>system(cmd) < 0\<close>, and the same on a command printed into a buffer of 512 bytes.\<close>

definition system_fails :: "shell \<Rightarrow> string \<Rightarrow> string list \<Rightarrow> int \<times> string list" where
  "system_fails sys cmd hist = ((if sys hist cmd < 0 then 1 else 0), hist @ [cmd])"

definition run_buffer :: "shell \<Rightarrow> string \<Rightarrow> string list \<Rightarrow> (int \<times> string list) outcome" where
  "run_buffer sys cmd hist =
     (if length cmd < FW_BUF_SIZE then Ret (system_fails sys cmd hist) else Fault Oob_Write)"

definition fw_ip_tables_save :: "shell \<Rightarrow> string list \<Rightarrow> (int \<times> string list) outcome" where
  "fw_ip_tables_save sys hist = Ret (system_fails sys ''sudo iptables-save'' hist)"

definition fw_trusted_network_rules_init :: "shell \<Rightarrow> string list \<Rightarrow> (int \<times> string list) outcome" where
  "fw_trusted_network_rules_init sys = run_buffer sys (''sudo iptables --new '' @ TRUSTED_ZONE_RULES)"

definition fw_trusted_network_rules_destroy :: "shell \<Rightarrow> string list \<Rightarrow> (int \<times> string list) outcome" where
  "fw_trusted_network_rules_destroy sys =
     run_buffer sys (''sudo iptables --delete-chain '' @ TRUSTED_ZONE_RULES)"

definition fw_untrusted_network_rules_init :: "shell \<Rightarrow> string list \<Rightarrow> (int \<times> string list) outcome" where
  "fw_untrusted_network_rules_init sys = run_buffer sys (''sudo iptables --new '' @ UNTRUSTED_ZONE_RULES)"

definition fw_untrusted_network_rules_destroy :: "shell \<Rightarrow> string list \<Rightarrow> (int \<times> string list) outcome" where
  "fw_untrusted_network_rules_destroy sys =
     run_buffer sys (''sudo iptables --delete-chain '' @ UNTRUSTED_ZONE_RULES)"

definition fw_add_block_rule_for_untrusted_zone ::
  "shell \<Rightarrow> u32 \<Rightarrow> u32 \<Rightarrow> string list \<Rightarrow> (int \<times> string list) outcome" where
  "fw_add_block_rule_for_untrusted_zone sys ip nm hist =
     obind (run_buffer sys (''sudo iptables -A OUTPUT -d '' @ inet_ntoa ip @ ''/'' @ nat_dec (unat nm)
                            @ '' -j '' @ UNTRUSTED_ZONE_RULES) hist) (\<lambda>(rc, h1).
     obind (run_buffer sys (''sudo iptables -A '' @ UNTRUSTED_ZONE_RULES @ '' -j REJECT'') h1) (\<lambda>(post_rc, h2).
       Ret (rc OR post_rc, h2)))"

text \<open>\<open>iface\<close> is the 16-byte array of the attributes, printed with \<open>%s\<close>.\<close>

definition fw_add_accept_rule_for_trusted_zone ::
  "shell \<Rightarrow> u32 \<Rightarrow> u32 \<Rightarrow> string \<Rightarrow> string list \<Rightarrow> (int \<times> string list) outcome" where
  "fw_add_accept_rule_for_trusted_zone sys ip nm iface hist =
     obind (oget Oob_Read (cstring iface)) (\<lambda>name.
     obind (run_buffer sys (''sudo iptables -A INPUT -i '' @ name @ '' -s '' @ inet_ntoa ip @ ''/''
                            @ nat_dec (unat nm) @ '' -j '' @ TRUSTED_ZONE_RULES) hist) (\<lambda>(rc, h1).
     obind (run_buffer sys (''sudo iptables -A '' @ TRUSTED_ZONE_RULES @ '' -j ACCEPT'') h1) (\<lambda>(post_rc, h2).
       Ret (rc OR post_rc, h2))))"

text \<open>The three operands of \<open>|\<close> are evaluated from left to right, as gcc does.\<close>

definition fw_ip_tables_flush :: "shell \<Rightarrow> string list \<Rightarrow> (int \<times> string list) outcome" where
  "fw_ip_tables_flush sys hist =
     obind (run_buffer sys (''sudo iptables -F '' @ TRUSTED_ZONE_RULES @ '' && sudo iptables -F '' @
                            UNTRUSTED_ZONE_RULES @ '' && sudo iptables -F OUTPUT'') hist) (\<lambda>(r1, h1).
     obind (fw_trusted_network_rules_destroy sys h1) (\<lambda>(r2, h2).
     obind (fw_untrusted_network_rules_destroy sys h2) (\<lambda>(r3, h3).
       Ret (r1 OR r2 OR r3, h3))))"

section \<open>What the operations do\<close>

definition cmd_new :: "string \<Rightarrow> string" where "cmd_new z = ''sudo iptables --new '' @ z"
definition cmd_delete :: "string \<Rightarrow> string" where "cmd_delete z = ''sudo iptables --delete-chain '' @ z"

definition flush_cmds :: "string list" where
  "flush_cmds = [''sudo iptables -F TRUSTED && sudo iptables -F UNTRUSTED && sudo iptables -F OUTPUT'',
     cmd_delete TRUSTED_ZONE_RULES, cmd_delete UNTRUSTED_ZONE_RULES]"

definition cidr :: "fw_network \<Rightarrow> string" where
  "cidr n = inet_ntoa (ip_prefix n) @ ''/'' @ nat_dec (unat (netmask n))"

definition block_cmds :: "fw_network \<Rightarrow> string list" where
  "block_cmds n = [''sudo iptables -A OUTPUT -d '' @ cidr n @ '' -j UNTRUSTED'',
                   ''sudo iptables -A UNTRUSTED -j REJECT'']"

definition accept_cmds :: "string \<Rightarrow> fw_network \<Rightarrow> string list" where
  "accept_cmds iface n = [''sudo iptables -A INPUT -i '' @ iface @ '' -s '' @ cidr n @ '' -j TRUSTED'',
                          ''sudo iptables -A TRUSTED -j ACCEPT'']"

lemmas zone_defs = TRUSTED_ZONE_RULES_def UNTRUSTED_ZONE_RULES_def

text \<open>Whether one of the commands, issued in this order, could not be run at all.\<close>

fun some_negative :: "shell \<Rightarrow> string list \<Rightarrow> string list \<Rightarrow> bool" where
  "some_negative sys [] hist \<longleftrightarrow> False"
| "some_negative sys (c # cs) hist \<longleftrightarrow> sys hist c < 0 \<or> some_negative sys cs (hist @ [c])"

definition flag :: "bool \<Rightarrow> int" where "flag b = (if b then 1 else 0)"

lemma flag_OR [simp]: "flag a OR flag b = flag (a \<or> b)"
  by (simp add: flag_def)

lemma flag_simps [simp]: "flag b = 0 \<longleftrightarrow> \<not> b" "flag b < 0 \<longleftrightarrow> False" "flag False = 0"
  by (simp_all add: flag_def)

lemma run_buffer_eq:
  "length cmd < 512 \<Longrightarrow> run_buffer sys cmd hist = Ret (flag (some_negative sys [cmd] hist), hist @ [cmd])"
  by (simp add: run_buffer_def system_fails_def FW_BUF_SIZE_def flag_def)

lemma nat_dec_u32_length: "length (nat_dec (unat (w :: u32))) \<le> 10"
proof (rule nat_dec_length_le)
  show "unat w < 10 ^ 10" by (rule less_le_trans [OF unsigned_less]) simp
qed simp

lemma cidr_length: "length (cidr n) \<le> 26"
  using inet_ntoa_length [of "ip_prefix n"] nat_dec_u32_length [of "netmask n"] by (simp add: cidr_def)

lemma save_eq:
  "fw_ip_tables_save sys hist =
     Ret (flag (some_negative sys [''sudo iptables-save''] hist), hist @ [''sudo iptables-save''])"
  by (simp add: fw_ip_tables_save_def system_fails_def flag_def)

lemma chain_eqs:
  "fw_trusted_network_rules_init sys hist =
     Ret (flag (some_negative sys [cmd_new TRUSTED_ZONE_RULES] hist), hist @ [cmd_new TRUSTED_ZONE_RULES])"
  "fw_untrusted_network_rules_init sys hist =
     Ret (flag (some_negative sys [cmd_new UNTRUSTED_ZONE_RULES] hist), hist @ [cmd_new UNTRUSTED_ZONE_RULES])"
  "fw_trusted_network_rules_destroy sys hist =
     Ret (flag (some_negative sys [cmd_delete TRUSTED_ZONE_RULES] hist), hist @ [cmd_delete TRUSTED_ZONE_RULES])"
  "fw_untrusted_network_rules_destroy sys hist =
     Ret (flag (some_negative sys [cmd_delete UNTRUSTED_ZONE_RULES] hist), hist @ [cmd_delete UNTRUSTED_ZONE_RULES])"
  by (simp_all add: fw_trusted_network_rules_init_def fw_untrusted_network_rules_init_def
      fw_trusted_network_rules_destroy_def fw_untrusted_network_rules_destroy_def run_buffer_eq cmd_new_def
      cmd_delete_def zone_defs del: some_negative.simps)

lemma flush_eq:
  "fw_ip_tables_flush sys hist = Ret (flag (some_negative sys flush_cmds hist), hist @ flush_cmds)"
  by (simp add: fw_ip_tables_flush_def flush_cmds_def chain_eqs run_buffer_eq zone_defs)

lemma block_eq:
  "fw_add_block_rule_for_untrusted_zone sys (ip_prefix n) (netmask n) hist =
     Ret (flag (some_negative sys (block_cmds n) hist), hist @ block_cmds n)"
  using cidr_length [of n]
  by (simp add: fw_add_block_rule_for_untrusted_zone_def block_cmds_def run_buffer_eq zone_defs cidr_def)

lemma accept_eq:
  assumes "cstring iface = Some name" and "length iface \<le> 16"
  shows "fw_add_accept_rule_for_trusted_zone sys (ip_prefix n) (netmask n) iface hist =
    Ret (flag (some_negative sys (accept_cmds name n) hist), hist @ accept_cmds name n)"
  using cidr_length [of n] cstring_length [OF assms(1)] assms
  by (simp add: fw_add_accept_rule_for_trusted_zone_def accept_cmds_def run_buffer_eq zone_defs cidr_def)

lemma some_negative_append [simp]:
  "some_negative sys (xs @ ys) hist \<longleftrightarrow> some_negative sys xs hist \<or> some_negative sys ys (hist @ xs)"
  by (induction xs arbitrary: hist) auto

lemma some_negative_none: "(\<And>h c. 0 \<le> sys h c) \<Longrightarrow> \<not> some_negative sys cs hist"
  by (induction cs arbitrary: hist) (auto simp: not_less)

end
