(* ===== verification/Payload_Print.thy ===== *)
theory Payload_Print
  imports Net_Address
begin

text \<open>
  \<open>print_hex_ascii_line\<close> and \<open>fw_print_payload\<close> of
  \<open>services/firewall_service/helpers_firewall_common.c\<close>: the hex dump of a packet payload.  A
  pointer into the packet is the list of the bytes that may be read from it on; reading
  further is a fault.  What is written to the standard output is the result.
\<close>

section \<open>One line\<close>

definition c_isprint :: "char \<Rightarrow> bool" where
  "c_isprint c \<longleftrightarrow> 32 \<le> (of_char c :: nat) \<and> (of_char c :: nat) \<le> 126"

text \<open>\<open>%05d\<close> of a number that is not negative, and \<open>%02x\<close>.\<close>

definition dec5 :: "nat \<Rightarrow> string" where
  "dec5 n = replicate (5 - length (nat_dec n)) (CHR ''0'') @ nat_dec n"

definition hex_digit :: "nat \<Rightarrow> char" where
  "hex_digit d = (if d < 10 then char_of (48 + d) else char_of (87 + d))"

definition hex2 :: "char \<Rightarrow> string" where
  "hex2 c = [hex_digit (of_char c div 16), hex_digit (of_char c mod 16)]"

fun hex_loop :: "nat \<Rightarrow> string \<Rightarrow> string" where
  "hex_loop i [] = []"
| "hex_loop i (c # cs) =
     hex2 c @ '' '' @ (if i = 7 then '' '' else []) @ hex_loop (Suc i) cs"

definition print_hex_ascii_line :: "string \<Rightarrow> nat \<Rightarrow> nat \<Rightarrow> string outcome" where
  "print_hex_ascii_line payload len offset =
     (if length payload < len then Fault Oob_Read
      else Ret (dec5 offset @ ''   '' @ hex_loop 0 (take len payload) @
                (if len < 8 then '' '' else []) @
                (if len < 16 then concat (replicate (16 - len) ''   '') else []) @ ''   '' @
                map (\<lambda>c. if c_isprint c then c else CHR ''.'') (take len payload) @ [LF]))"

section \<open>The whole payload\<close>

function payload_loop :: "string \<Rightarrow> nat \<Rightarrow> nat \<Rightarrow> string outcome" where
  "payload_loop ch len_rem offset =
     (if len_rem = 0 then Fault Div_By_Zero
      else
        let line_len = 16 mod len_rem in
        obind (print_hex_ascii_line ch line_len offset) (\<lambda>line.
          if len_rem - line_len \<le> 16
          then obind (print_hex_ascii_line (drop line_len ch) (len_rem - line_len) (offset + 16))
                 (\<lambda>last_line. Ret (line @ last_line))
          else obind (payload_loop (drop line_len ch) (len_rem - line_len) (offset + 16))
                 (\<lambda>lines. Ret (line @ lines))))"
  by pat_completeness auto
termination
  by (relation "measure (\<lambda>(ch, len_rem, offset). len_rem)") (auto simp: mod_less)

declare payload_loop.simps [simp del]

definition fw_print_payload :: "string \<Rightarrow> int \<Rightarrow> string outcome" where
  "fw_print_payload payload len =
     (if len \<le> 0 then Ret []
      else if len \<le> 16 then print_hex_ascii_line payload (nat len) 0
      else payload_loop payload (nat len) 0)"

section \<open>The lines of a dump\<close>

definition dump_line :: "nat \<Rightarrow> string \<Rightarrow> string" where
  "dump_line offset bytes =
     dec5 offset @ ''   '' @ hex_loop 0 bytes @ (if length bytes < 8 then '' '' else []) @
     concat (replicate (16 - length bytes) ''   '') @ ''   '' @
     map (\<lambda>c. if c_isprint c then c else CHR ''.'') bytes"

fun dump_lines :: "nat \<Rightarrow> string \<Rightarrow> string list" where
  "dump_lines offset bytes =
     (if length bytes \<le> 16 then [dump_line offset bytes]
      else dump_line offset (take 16 bytes) # dump_lines (offset + 16) (drop 16 bytes))"

declare dump_lines.simps [simp del]

definition unlines :: "string list \<Rightarrow> string" where
  "unlines ls = concat (map (\<lambda>l. l @ [LF]) ls)"

lemma print_hex_ascii_line_eq:
  "print_hex_ascii_line payload len offset =
     (if length payload < len then Fault Oob_Read else Ret (dump_line offset (take len payload) @ [LF]))"
  by (simp add: print_hex_ascii_line_def dump_line_def min_def)

lemma payload_loop_eq:
  assumes "16 < len"
  shows "payload_loop mem len offset =
    (if length mem < len then Fault Oob_Read else Ret (unlines (dump_lines offset (take len mem))))"
  using assms
proof (induction mem len offset rule: payload_loop.induct)
  case (1 mem len offset)
  then have m: "16 mod len = 16" by simp
  show ?case
  proof (cases "len - 16 \<le> 16")
    case True
    with 1 m show ?thesis
      by (auto simp: payload_loop.simps [of mem len] print_hex_ascii_line_eq unlines_def Let_def
          dump_lines.simps [of offset] dump_lines.simps [of "offset + 16"] take_drop min_def)
  next
    case False
    with 1 m show ?thesis
      by (auto simp: payload_loop.simps [of mem len] print_hex_ascii_line_eq unlines_def Let_def
          dump_lines.simps [of offset] take_drop min_def)
  qed
qed

lemma fw_print_payload_eq:
  assumes "0 < len"
  shows "fw_print_payload mem len =
    (if int (length mem) < len then Fault Oob_Read else Ret (unlines (dump_lines 0 (take (nat len) mem))))"
  using assms
  by (auto simp: fw_print_payload_def print_hex_ascii_line_eq payload_loop_eq unlines_def dump_lines.simps [of 0])

section \<open>Reading a dump back\<close>

text \<open>The bytes of a line: the hexadecimal columns from the ninth character on.\<close>

fun unhex :: "nat \<Rightarrow> string \<Rightarrow> string" where
  "unhex i (a # b # c # rest) =
     (if a = CHR '' '' then []
      else char_of (16 * hex_val a + hex_val b) # unhex (Suc i) (if i = 7 then tl rest else rest))"
| "unhex i _ = []"

definition undump :: "string list \<Rightarrow> string" where
  "undump ls = concat (map (\<lambda>l. unhex 0 (drop 8 l)) ls)"

lemma hex_digit_props:
  assumes "d < 16"
  shows "hex_val (hex_digit d) = d" and "hex_digit d \<noteq> CHR '' ''" and "hex_digit d \<noteq> LF"
proof -
  have "hex_val (hex_digit d) = d \<and> hex_digit d \<noteq> CHR '' '' \<and> hex_digit d \<noteq> LF"
  proof (cases "d < 10")
    case True
    then have "(of_char (hex_digit d) :: nat) = 48 + d" by (simp add: hex_digit_def)
    with True show ?thesis by (auto simp: hex_val_def)
  next
    case False
    with assms have "(of_char (hex_digit d) :: nat) = 87 + d" by (simp add: hex_digit_def)
    with False show ?thesis by (auto simp: hex_val_def)
  qed
  then show "hex_val (hex_digit d) = d" "hex_digit d \<noteq> CHR '' ''" "hex_digit d \<noteq> LF" by auto
qed

lemma hex2_E:
  obtains a b where "hex2 c = [a, b]" and "a \<noteq> CHR '' ''" and "a \<noteq> LF" and "b \<noteq> LF"
    and "char_of (16 * hex_val a + hex_val b) = c"
proof -
  define n where "n = (of_char c :: nat)"
  have "n < 256" by (simp add: n_def)
  then have d: "n div 16 < 16" "n mod 16 < 16" by (simp_all add: less_mult_imp_div_less)
  have "16 * hex_val (hex_digit (n div 16)) + hex_val (hex_digit (n mod 16)) = n"
    unfolding hex_digit_props(1) [OF d(1)] hex_digit_props(1) [OF d(2)] by simp
  moreover have "char_of n = c" by (simp add: n_def)
  moreover have "hex2 c = [hex_digit (n div 16), hex_digit (n mod 16)]" by (simp add: hex2_def n_def)
  ultimately show thesis
    using that hex_digit_props(2,3) [OF d(1)] hex_digit_props(3) [OF d(2)] by metis
qed

lemma unhex_hex_loop: "unhex i (hex_loop i bytes @ CHR '' '' # x # y # r) = bytes"
proof (induction bytes arbitrary: i)
  case Nil
  then show ?case by simp
next
  case (Cons c cs)
  obtain a b where "hex2 c = [a, b]" "a \<noteq> CHR '' ''" "char_of (16 * hex_val a + hex_val b) = c"
    by (rule hex2_E)
  then show ?case using Cons [of "Suc i"] by (cases "i = 7") simp_all
qed

lemma dec5_length: "n < 100000 \<Longrightarrow> length (dec5 n) = 5"
proof -
  assume "n < 100000"
  then have "length (nat_dec n) \<le> 5" by (intro nat_dec_length_le) simp_all
  then show ?thesis by (simp add: dec5_def)
qed

lemma undump_line: "offset < 100000 \<Longrightarrow> unhex 0 (drop 8 (dump_line offset bytes)) = bytes"
proof -
  assume "offset < 100000"
  then have "drop 8 (dump_line offset bytes) = hex_loop 0 bytes @ (if length bytes < 8 then '' '' else []) @
     concat (replicate (16 - length bytes) ''   '') @ ''   '' @
     map (\<lambda>c. if c_isprint c then c else CHR ''.'') bytes"
    by (simp add: dump_line_def dec5_length)
  moreover have "\<exists>x y r. (if length bytes < 8 then '' '' else []) @
     concat (replicate (16 - length bytes) ''   '') @ ''   '' @ z = CHR '' '' # x # y # r" for z
    by (cases "16 - length bytes") (simp_all split: if_splits)
  then obtain x y r where "(if length bytes < 8 then '' '' else []) @
     concat (replicate (16 - length bytes) ''   '') @ ''   '' @
     map (\<lambda>c. if c_isprint c then c else CHR ''.'') bytes = CHR '' '' # x # y # r" by blast
  ultimately show ?thesis by (simp only: unhex_hex_loop)
qed

lemma undump_lines:
  "offset + length bytes < 100000 \<Longrightarrow> undump (dump_lines offset bytes) = bytes"
proof (induction offset bytes rule: dump_lines.induct)
  case (1 offset bytes)
  show ?case
  proof (cases "length bytes \<le> 16")
    case True
    with 1 show ?thesis by (simp add: dump_lines.simps [of offset] undump_def undump_line)
  next
    case False
    with 1 have "undump (dump_lines (offset + 16) (drop 16 bytes)) = drop 16 bytes" by simp
    then have "undump (dump_lines offset bytes) = take 16 bytes @ drop 16 bytes"
      using "1.prems" False by (simp add: dump_lines.simps [of offset] undump_def undump_line
          del: append_take_drop_id)
    then show ?thesis by simp
  qed
qed

lemma hex_loop_no_LF: "LF \<notin> set (hex_loop i bytes)"
proof (induction bytes arbitrary: i)
  case Nil
  then show ?case by simp
next
  case (Cons c cs)
  obtain a b where "hex2 c = [a, b]" "a \<noteq> LF" "b \<noteq> LF" by (rule hex2_E)
  then show ?case using Cons [of "Suc i"] by auto
qed

lemma dump_line_no_LF: "LF \<notin> set (dump_line offset bytes)"
proof -
  have "LF \<notin> set (nat_dec offset)" using nat_dec_digits [of offset] by (auto simp: is_digit_def)
  moreover have "\<not> c_isprint LF" by (simp add: c_isprint_def)
  ultimately show ?thesis
    by (auto simp: dump_line_def dec5_def hex_loop_no_LF split: if_splits)
qed

lemma dump_lines_no_LF: "\<forall>l \<in> set (dump_lines offset bytes). LF \<notin> set l"
proof (induction offset bytes rule: dump_lines.induct)
  case (1 offset bytes)
  then show ?case
    by (cases "length bytes \<le> 16") (simp_all add: dump_lines.simps [of offset] dump_line_no_LF)
qed

lemma dump_lines_map:
  assumes "bytes \<noteq> []"
  shows "dump_lines offset bytes =
    map (\<lambda>k. dump_line (offset + 16 * k) (take 16 (drop (16 * k) bytes))) [0..<(length bytes + 15) div 16]"
  using assms
proof (induction offset bytes rule: dump_lines.induct)
  case (1 offset bytes)
  show ?case
  proof (cases "length bytes \<le> 16")
    case True
    have "0 < length bytes" using "1.prems" by simp
    with True have "(length bytes + 15) div 16 = Suc 0" by linarith
    with True show ?thesis by (simp add: dump_lines.simps [of offset bytes])
  next
    case False
    then have n: "(length bytes + 15) div 16 = Suc ((length (drop 16 bytes) + 15) div 16)"
      by (simp add: le_div_geq)
    show ?thesis
      using 1 False unfolding n
      by (simp add: dump_lines.simps [of offset bytes] upt_conv_Cons map_Suc_upt [symmetric] o_def add_ac
          del: upt_Suc map_Suc_upt)
  qed
qed

section \<open>Properties\<close>

text \<open>
  Claim C27: what is printed, on every branch.  A length that is not positive prints nothing;
  a length beyond the bytes that are there is an access out of bounds; otherwise the output
  is one line per 16 bytes, each with its offset, the last one shorter.
\<close>

theorem payload_dump_lines:
  "fw_print_payload mem len =
     (if len \<le> 0 then Ret []
      else if int (length mem) < len then Fault Oob_Read
      else Ret (unlines (map (\<lambda>k. dump_line (16 * k) (take 16 (drop (16 * k) (take (nat len) mem))))
                     [0..<(nat len + 15) div 16])))"
proof -
  have "dump_lines 0 (take (nat len) mem)
      = map (\<lambda>k. dump_line (16 * k) (take 16 (drop (16 * k) (take (nat len) mem)))) [0..<(nat len + 15) div 16]"
    if "0 < len" "len \<le> int (length mem)"
    using that dump_lines_map [of "take (nat len) mem" 0] by (cases "mem = []") (simp_all add: min_absorb2 nat_le_iff)
  then show ?thesis by (simp add: fw_print_payload_eq) (simp add: fw_print_payload_def)
qed

text \<open>
  Claim C28: the dump loses nothing.  For a payload of fewer than 100000 bytes (a packet has
  at most 65535) the output is a sequence of lines without inner newlines, and reading the
  hexadecimal columns of the lines gives back exactly the bytes of the payload.
\<close>

theorem payload_dump_roundtrip:
  assumes "0 < len" and "len \<le> int (length mem)" and "len < 100000"
  shows "\<exists>ls. fw_print_payload mem len = Ret (unlines ls) \<and> (\<forall>l \<in> set ls. LF \<notin> set l)
            \<and> undump ls = take (nat len) mem"
  using assms by (intro exI [of _ "dump_lines 0 (take (nat len) mem)"])
    (auto simp: fw_print_payload_eq dump_lines_no_LF [rule_format] undump_lines)

theorem payload_dump_roundtrip_witness:
  "\<exists>ls. fw_print_payload (replicate 20 (CHR ''a'')) 20 = Ret (unlines ls) \<and> (\<forall>l \<in> set ls. LF \<notin> set l)
      \<and> undump ls = replicate 20 (CHR ''a'')"
  using payload_dump_roundtrip [of 20 "replicate 20 (CHR ''a'')"] by simp

end
