(* ===== verification/Packet_Filter.thy ===== *)
theory Packet_Filter
  imports Firewall_Config Payload_Print
begin

unbundle bit_operations_syntax

text \<open>
  The packet handler \<open>fw_got_packet\<close> of \<open>services/firewall_service/firewall_service_main.c\<close>, the
  static variables it counts in, and the lines of \<open>start\<close> that compute the mask it compares
  with.  A packet is the list of the bytes that may be read from the pointer \<open>pcap_loop\<close>
  passes (its captured length); the handler itself never looks at that length.
\<close>

section \<open>State\<close>

definition SIZE_ETHERNET :: nat where "SIZE_ETHERNET = 14"
definition IPPROTO_TCP :: nat where "IPPROTO_TCP = 6"

record fw_state =
  fw_keep_running :: bool
  fw_count :: u32
  fw_ip_bits :: u32
  fw_untrusted_counter :: u32
  fw_net_bits :: u32
  fw_netmask :: u32

text \<open>
  \<open>net_bits\<close> and \<open>netmask\<close> as \<open>start\<close> sets them.  The shifted \<open>1\<close> is an \<open>int\<close>: shifting by
  31 or more, and subtracting 1 from \<open>1 << 31\<close>, is undefined.
\<close>

definition fw_mask_setup :: "fw_network \<Rightarrow> fw_state \<Rightarrow> fw_state outcome" where
  "fw_mask_setup untrusted s =
     (if 31 \<le> unat (netmask untrusted) then Fault Bad_Shift
      else Ret (s\<lparr>fw_net_bits := ip_prefix untrusted,
                  fw_netmask := ip_prefix untrusted AND (push_bit (unat (netmask untrusted)) 1 - 1)\<rparr>))"

definition fw_signal_handler :: "fw_state \<Rightarrow> fw_state" where
  "fw_signal_handler s = s\<lparr>fw_keep_running := False\<rparr>"

definition fw_get_keep_running :: "fw_state \<Rightarrow> bool" where
  "fw_get_keep_running s = fw_keep_running s"

section \<open>Reading the headers\<close>

definition rd8 :: "string \<Rightarrow> nat \<Rightarrow> nat outcome" where
  "rd8 p i = (if i < length p then Ret (byte p i) else Fault Oob_Read)"

definition rd16 :: "string \<Rightarrow> nat \<Rightarrow> nat outcome" where
  "rd16 p i = obind (rd8 p i) (\<lambda>hi. obind (rd8 p (i + 1)) (\<lambda>lo. Ret (256 * hi + lo)))"

definition rd32 :: "string \<Rightarrow> nat \<Rightarrow> u32 outcome" where
  "rd32 p i = (if i + 4 \<le> length p then Ret (le32_of (drop i p)) else Fault Oob_Read)"

text \<open>\<open>IP_HL\<close>, \<open>TH_OFF\<close> and the offsets of the fields in \<open>fw_sniff_ip\<close> and \<open>fw_sniff_tcp\<close>.\<close>

definition IP_HL :: "nat \<Rightarrow> nat" where "IP_HL vhl = vhl AND 15"
definition TH_OFF :: "nat \<Rightarrow> nat" where "TH_OFF offx2 = drop_bit 4 (offx2 AND 240)"

abbreviation ip_vhl_at :: nat where "ip_vhl_at \<equiv> SIZE_ETHERNET"
abbreviation ip_len_at :: nat where "ip_len_at \<equiv> SIZE_ETHERNET + 2"
abbreviation ip_p_at :: nat where "ip_p_at \<equiv> SIZE_ETHERNET + 9"
abbreviation ip_src_at :: nat where "ip_src_at \<equiv> SIZE_ETHERNET + 12"
abbreviation ip_dst_at :: nat where "ip_dst_at \<equiv> SIZE_ETHERNET + 16"

section \<open>The handler\<close>

text \<open>
  How a call ends: the thread exits, one of the two header checks fails, the protocol is not
  TCP, or a TCP segment with the dump of its payload.
\<close>

datatype packet_end =
    Thread_Exit | Bad_Ip_Header | Not_Tcp nat | Bad_Tcp_Header | Tcp_Segment nat nat string

definition fw_got_tcp :: "string \<Rightarrow> nat \<Rightarrow> packet_end outcome" where
  "fw_got_tcp packet size_ip =
     obind (rd8 packet (SIZE_ETHERNET + size_ip + 12)) (\<lambda>offx2.
       let size_tcp = TH_OFF offx2 * 4 in
       if size_tcp < 20 then Ret Bad_Tcp_Header
       else
         obind (rd16 packet (SIZE_ETHERNET + size_ip)) (\<lambda>sport.
         obind (rd16 packet (SIZE_ETHERNET + size_ip + 2)) (\<lambda>dport.
         obind (rd16 packet ip_len_at) (\<lambda>ip_len.
           let size_payload = int ip_len - int (size_ip + size_tcp) in
           if size_payload > 0
           then obind (fw_print_payload (drop (SIZE_ETHERNET + size_ip + size_tcp) packet) size_payload)
                  (\<lambda>dump. Ret (Tcp_Segment sport dport dump))
           else Ret (Tcp_Segment sport dport [])))))"

definition fw_got_packet :: "bool \<Rightarrow> string \<Rightarrow> fw_state \<Rightarrow> (packet_end \<times> fw_state) outcome" where
  "fw_got_packet args_null packet s =
     (if \<not> fw_get_keep_running s then Ret (Thread_Exit, s)
      else if args_null then Ret (Thread_Exit, s)
      else
        let s1 = s\<lparr>fw_ip_bits := 0, fw_count := fw_count s + 1\<rparr> in
        obind (rd8 packet ip_vhl_at) (\<lambda>vhl.
          let size_ip = IP_HL vhl * 4 in
          if size_ip < 20 then Ret (Bad_Ip_Header, s1)
          else
            obind (rd32 packet ip_src_at) (\<lambda>src.
            obind (rd32 packet ip_dst_at) (\<lambda>dst.
              let s2 = s1\<lparr>fw_ip_bits := src\<rparr>;
                  s3 = (if fw_ip_bits s2 AND fw_netmask s2 = fw_net_bits s2
                        then s2\<lparr>fw_untrusted_counter := fw_untrusted_counter s2 + 1\<rparr> else s2)
              in
              obind (rd8 packet ip_p_at) (\<lambda>p.
                if p \<noteq> IPPROTO_TCP then Ret (Not_Tcp p, s3)
                else obind (fw_got_tcp packet size_ip) (\<lambda>e. Ret (e, s3)))))))"

section \<open>What the comparison means\<close>

definition untrusted_match :: "fw_state \<Rightarrow> u32 \<Rightarrow> bool" where
  "untrusted_match s src \<longleftrightarrow> src AND fw_netmask s = fw_net_bits s"

lemma fw_mask_setup_match:
  assumes "fw_mask_setup net s = Ret s'"
  shows "untrusted_match s' src \<longleftrightarrow>
    ip_prefix net AND mask (unat (netmask net)) = ip_prefix net \<and> src AND ip_prefix net = ip_prefix net"
proof -
  define m where "m = (mask (unat (netmask net)) :: u32)"
  define n where "n = ip_prefix net"
  have s': "fw_netmask s' = n AND m" "fw_net_bits s' = n"
    using assms by (auto simp: fw_mask_setup_def mask_eq_exp_minus_1 m_def n_def split: if_splits)
  have "(src AND (n AND m) = n) = (n AND m = n \<and> src AND n = n)"
  proof
    assume e: "src AND (n AND m) = n"
    from e have "n AND m = n" by (metis and.assoc and.idem)
    with e show "n AND m = n \<and> src AND n = n" by simp
  qed simp
  then show ?thesis by (simp add: untrusted_match_def s' m_def n_def)
qed

text \<open>
  One packet, when the service runs: what is counted depends on the header length and the
  source address alone.
\<close>

definition header_ok :: "string \<Rightarrow> bool" where
  "header_ok p \<longleftrightarrow> 20 \<le> IP_HL (byte p ip_vhl_at) * 4"

definition source_of :: "string \<Rightarrow> u32" where
  "source_of p = le32_of (drop ip_src_at p)"

definition counted :: "fw_state \<Rightarrow> string \<Rightarrow> bool" where
  "counted s p \<longleftrightarrow> header_ok p \<and> untrusted_match s (source_of p)"

lemma rd8_Ret [simp]: "rd8 p i = Ret v \<longleftrightarrow> i < length p \<and> v = byte p i"
  by (auto simp: rd8_def)

lemma rd32_Ret [simp]: "rd32 p i = Ret v \<longleftrightarrow> i + 4 \<le> length p \<and> v = le32_of (drop i p)"
  by (auto simp: rd32_def)

lemma fw_got_packet_state:
  assumes "fw_got_packet False p s = Ret (e, s')" and "fw_keep_running s"
  shows "s' = s\<lparr>fw_count := fw_count s + 1,
               fw_ip_bits := (if header_ok p then source_of p else 0),
               fw_untrusted_counter := fw_untrusted_counter s + (if counted s p then 1 else 0)\<rparr>"
  using assms
  by (auto simp: fw_got_packet_def fw_get_keep_running_def header_ok_def counted_def source_of_def
      untrusted_match_def c_simps Let_def split: if_splits)

section \<open>A capture\<close>

text \<open>\<open>pcap_loop\<close> calls the handler once per packet; the results are collected.\<close>

fun fw_capture :: "string list \<Rightarrow> fw_state \<Rightarrow> (packet_end list \<times> fw_state) outcome" where
  "fw_capture [] s = Ret ([], s)"
| "fw_capture (p # ps) s =
     obind (fw_got_packet False p s) (\<lambda>(e, s1).
     obind (fw_capture ps s1) (\<lambda>(es, s2). Ret (e # es, s2)))"

lemma counted_upd [simp]:
  "counted (s\<lparr>fw_count := a, fw_ip_bits := b, fw_untrusted_counter := c\<rparr>) = counted s"
  by (simp add: fun_eq_iff counted_def untrusted_match_def)

lemma fw_capture_state:
  assumes "fw_capture ps s = Ret (es, s')" and "fw_keep_running s"
  shows "length es = length ps \<and> fw_count s' = fw_count s + of_nat (length ps)
     \<and> fw_untrusted_counter s' = fw_untrusted_counter s + of_nat (length (filter (counted s) ps))"
  using assms
proof (induction ps arbitrary: s es)
  case Nil
  then show ?case by simp
next
  case (Cons p ps)
  from Cons.prems(1) obtain e s1 es1 where p: "fw_got_packet False p s = Ret (e, s1)"
    and r: "fw_capture ps s1 = Ret (es1, s')" and es: "es = e # es1" by (auto simp: c_simps)
  note s1 = fw_got_packet_state [OF p Cons.prems(2)]
  from Cons.IH [OF r] Cons.prems(2) show ?case by (simp add: s1 es)
qed

section \<open>Which packets are read within their bounds\<close>

definition size_ip_of :: "string \<Rightarrow> nat" where
  "size_ip_of p = IP_HL (byte p ip_vhl_at) * 4"

definition size_tcp_of :: "string \<Rightarrow> nat" where
  "size_tcp_of p = TH_OFF (byte p (SIZE_ETHERNET + size_ip_of p + 12)) * 4"

definition ip_len_of :: "string \<Rightarrow> nat" where
  "ip_len_of p = 256 * byte p ip_len_at + byte p (ip_len_at + 1)"

text \<open>
  The headers are there, and a TCP segment is captured up to the length its IP header claims
  (unless that leaves no payload).
\<close>

definition packet_safe :: "string \<Rightarrow> bool" where
  "packet_safe p \<longleftrightarrow>
     SIZE_ETHERNET < length p \<and>
     (header_ok p \<longrightarrow>
        SIZE_ETHERNET + 20 \<le> length p \<and>
        (byte p ip_p_at = IPPROTO_TCP \<longrightarrow>
           SIZE_ETHERNET + size_ip_of p + 13 \<le> length p \<and>
           (20 \<le> size_tcp_of p \<longrightarrow>
              ip_len_of p \<le> size_ip_of p + size_tcp_of p \<or> SIZE_ETHERNET + ip_len_of p \<le> length p)))"

lemma rd8_if: "rd8 p i = (if i < length p then Ret (byte p i) else Fault Oob_Read)"
  by (simp add: rd8_def)

lemma fw_got_tcp_eq:
  assumes "size_ip_of p = size_ip" and "20 \<le> size_ip"
  shows "fw_got_tcp p size_ip =
    (if length p < SIZE_ETHERNET + size_ip + 13 then Fault Oob_Read
     else if size_tcp_of p < 20 then Ret Bad_Tcp_Header
     else
       let sport = 256 * byte p (SIZE_ETHERNET + size_ip) + byte p (SIZE_ETHERNET + size_ip + 1);
           dport = 256 * byte p (SIZE_ETHERNET + size_ip + 2) + byte p (SIZE_ETHERNET + size_ip + 3)
       in if ip_len_of p \<le> size_ip + size_tcp_of p then Ret (Tcp_Segment sport dport [])
          else obind (fw_print_payload (drop (SIZE_ETHERNET + size_ip + size_tcp_of p) p)
                        (int (ip_len_of p) - int (size_ip + size_tcp_of p)))
                 (\<lambda>dump. Ret (Tcp_Segment sport dport dump)))"
  using assms
  by (simp add: fw_got_tcp_def rd8_if rd16_def Let_def size_tcp_of_def ip_len_of_def not_less
      numeral_2_eq_2 numeral_3_eq_3)

lemma fw_got_tcp_outcome:
  assumes "size_ip_of p = size_ip" and "20 \<le> size_ip"
  shows "if SIZE_ETHERNET + size_ip + 13 \<le> length p \<and>
            (20 \<le> size_tcp_of p \<longrightarrow>
               ip_len_of p \<le> size_ip + size_tcp_of p \<or> SIZE_ETHERNET + ip_len_of p \<le> length p)
         then \<exists>e. fw_got_tcp p size_ip = Ret e else fw_got_tcp p size_ip = Fault Oob_Read"
proof (cases "length p < SIZE_ETHERNET + size_ip + 13 \<or> size_tcp_of p < 20
    \<or> ip_len_of p \<le> size_ip + size_tcp_of p")
  case True
  then show ?thesis using assms by (auto simp: fw_got_tcp_eq Let_def)
next
  case False
  let ?n = "int (ip_len_of p) - int (size_ip + size_tcp_of p)"
  let ?m = "drop (SIZE_ETHERNET + size_ip + size_tcp_of p) p"
  from False have "0 < ?n" by simp
  note dump = fw_print_payload_eq [OF this, of ?m]
  have "int (length ?m) < ?n \<longleftrightarrow> length p < SIZE_ETHERNET + ip_len_of p" using False by auto
  with False dump show ?thesis using assms by (simp add: fw_got_tcp_eq Let_def not_less)
qed

lemma fw_got_packet_outcome:
  assumes "fw_keep_running s"
  shows "if packet_safe p then \<exists>e s'. fw_got_packet False p s = Ret (e, s')
         else fw_got_packet False p s = Fault Oob_Read"
proof (cases "SIZE_ETHERNET < length p \<and> header_ok p \<and> SIZE_ETHERNET + 20 \<le> length p
    \<and> byte p ip_p_at = IPPROTO_TCP")
  case True
  then have "fw_got_packet False p s = obind (fw_got_tcp p (size_ip_of p)) (\<lambda>e. Ret (e, s\<lparr>fw_count := fw_count s + 1,
      fw_ip_bits := source_of p,
      fw_untrusted_counter := fw_untrusted_counter s + (if counted s p then 1 else 0)\<rparr>))"
    using assms
    by (simp add: fw_got_packet_def fw_get_keep_running_def rd8_if rd32_def header_ok_def size_ip_of_def
        counted_def untrusted_match_def source_of_def Let_def)
  moreover have "20 \<le> size_ip_of p" using True by (simp add: header_ok_def size_ip_of_def)
  ultimately show ?thesis
    using fw_got_tcp_outcome [of p "size_ip_of p"] True by (auto simp: packet_safe_def split: if_splits)
next
  case False
  then show ?thesis using assms
    by (auto simp: fw_got_packet_def fw_get_keep_running_def rd8_if rd32_def header_ok_def packet_safe_def
        size_ip_of_def Let_def)
qed

section \<open>Networks of whole octets\<close>

text \<open>The address as the number it is in network order, and the usual prefix comparison.\<close>

definition be32 :: "u32 \<Rightarrow> nat" where
  "be32 a = 256 * (256 * (256 * octet a 0 + octet a 1) + octet a 2) + octet a 3"

definition same_prefix :: "nat \<Rightarrow> u32 \<Rightarrow> u32 \<Rightarrow> bool" where
  "same_prefix m a b \<longleftrightarrow> be32 a div 2 ^ (32 - m) = be32 b div 2 ^ (32 - m)"

lemma be32_div:
  "be32 a div 256 = 256 * (256 * octet a 0 + octet a 1) + octet a 2"
  "be32 a div 65536 = 256 * octet a 0 + octet a 1"
  "be32 a div 16777216 = octet a 0"
proof -
  have o: "(256 * x + octet a i) div 256 = x" for x i by simp
  show 1: "be32 a div 256 = 256 * (256 * octet a 0 + octet a 1) + octet a 2"
    unfolding be32_def by (rule o)
  have "be32 a div 65536 = be32 a div 256 div 256" by (simp flip: div_mult2_eq)
  also have "\<dots> = 256 * octet a 0 + octet a 1" unfolding 1 by (rule o)
  finally show 2: "be32 a div 65536 = 256 * octet a 0 + octet a 1" .
  have "be32 a div 16777216 = be32 a div 65536 div 256" by (simp flip: div_mult2_eq)
  also have "\<dots> = octet a 0" unfolding 2 by (rule o)
  finally show "be32 a div 16777216 = octet a 0" .
qed

lemma octet_pair_eq: "256 * x + octet a i = 256 * y + octet b j \<longleftrightarrow> x = y \<and> octet a i = octet b j"
proof
  assume e: "256 * x + octet a i = 256 * y + octet b j"
  have "(256 * x + octet a i) div 256 = x" "(256 * y + octet b j) div 256 = y" by simp_all
  with e show "x = y \<and> octet a i = octet b j" by (metis add_left_cancel)
qed simp

lemma same_prefix_octets:
  "same_prefix 8 a b \<longleftrightarrow> octet a 0 = octet b 0"
  "same_prefix 16 a b \<longleftrightarrow> octet a 0 = octet b 0 \<and> octet a 1 = octet b 1"
  "same_prefix 24 a b \<longleftrightarrow> octet a 0 = octet b 0 \<and> octet a 1 = octet b 1 \<and> octet a 2 = octet b 2"
proof -
  have e: "(2::nat) ^ (32 - 8) = 16777216" "(2::nat) ^ (32 - 16) = 65536" "(2::nat) ^ (32 - 24) = 256"
    by simp_all
  show "same_prefix 8 a b \<longleftrightarrow> octet a 0 = octet b 0"
    "same_prefix 16 a b \<longleftrightarrow> octet a 0 = octet b 0 \<and> octet a 1 = octet b 1"
    "same_prefix 24 a b \<longleftrightarrow> octet a 0 = octet b 0 \<and> octet a 1 = octet b 1 \<and> octet a 2 = octet b 2"
    unfolding same_prefix_def e be32_div octet_pair_eq conj_assoc by (rule refl)+
qed

lemma unat_mod_octets:
  "unat a mod 256 = octet a 0"
  "unat a mod 65536 = octet a 0 + 256 * octet a 1"
  "unat a mod 16777216 = octet a 0 + 256 * octet a 1 + 65536 * octet a 2"
proof -
  have step: "n mod (256 * k) = n mod k + k * (n div k mod 256)" for n k :: nat
    by (simp add: mod_mult2_eq mult.commute [of 256])
  show 1: "unat a mod 256 = octet a 0" by (simp add: octet_def)
  show 2: "unat a mod 65536 = octet a 0 + 256 * octet a 1"
    using step [of "unat a" 256] by (simp add: octet_def)
  show "unat a mod 16777216 = octet a 0 + 256 * octet a 1 + 65536 * octet a 2"
    using step [of "unat a" 65536] by (simp add: 2 octet_def)
qed

lemma masked_eq_octets:
  assumes "k \<in> {8, 16, 24}" and "same_prefix k a b"
  shows "a AND mask k = b AND mask k"
proof -
  have "unat (take_bit k w) = unat w mod 2 ^ k" for w :: u32
    by (subst unsigned_take_bit_eq) (rule take_bit_eq_mod)
  moreover have "unat a mod 2 ^ k = unat b mod 2 ^ k"
    using assms by (auto simp: unat_mod_octets same_prefix_octets)
  ultimately have "unat (take_bit k a) = unat (take_bit k b)" by simp
  then have "take_bit k a = take_bit k b" by (simp only: word_unat_eq_iff)
  then show ?thesis by (simp only: take_bit_eq_mask)
qed

lemma fw_capture_returns:
  assumes "\<forall>p \<in> set ps. packet_safe p" and "fw_keep_running s"
  shows "\<exists>es s'. fw_capture ps s = Ret (es, s')"
  using assms
proof (induction ps arbitrary: s)
  case Nil
  then show ?case by simp
next
  case (Cons p ps)
  then obtain e s1 where p: "fw_got_packet False p s = Ret (e, s1)"
    using fw_got_packet_outcome [of s p] by auto
  have "fw_keep_running s1" using fw_got_packet_state [OF p Cons.prems(2)] Cons.prems(2) by simp
  with Cons have "\<exists>es s2. fw_capture ps s1 = Ret (es, s2)" by simp
  with p show ?case by auto
qed

lemma byte_append_14 [simp]:
  "length e = SIZE_ETHERNET \<Longrightarrow> byte (e @ r) (SIZE_ETHERNET + i) = byte r i"
  "length e = SIZE_ETHERNET \<Longrightarrow> byte (e @ r) SIZE_ETHERNET = byte r 0"
  by (simp_all add: byte_def nth_append)

section \<open>Properties\<close>

text \<open>
  Claim C9: which packets are safe.  While the service runs, a packet is handled without a
  fault exactly when its headers were captured and, for a TCP segment with a payload, the
  capture reaches to the total length of the IP header; any other packet (a segment that was
  cut to the snap length, for one) makes the handler read past the captured bytes.
\<close>

theorem packet_handled_iff_safe:
  assumes "fw_keep_running s"
  shows "if packet_safe p then \<exists>e s'. fw_got_packet False p s = Ret (e, s')
         else fw_got_packet False p s = Fault Oob_Read"
  using assms by (rule fw_got_packet_outcome)

text \<open>A packet from a source with a protocol, and a state to handle it in.\<close>

definition sample_packet :: "u32 \<Rightarrow> nat \<Rightarrow> nat \<Rightarrow> string \<Rightarrow> string" where
  "sample_packet src proto tlen rest =
     replicate 14 NUL @
     map char_of [69, 0, tlen div 256, tlen mod 256, 0, 0, 0, 0, 64, proto, 0, 0] @
     le32_bytes src @ le32_bytes 0 @ rest"

definition sample_state :: fw_state where
  "sample_state = \<lparr>fw_keep_running = True, fw_count = 0, fw_ip_bits = 0, fw_untrusted_counter = 0,
                   fw_net_bits = 0, fw_netmask = 0\<rparr>"

text \<open>A TCP header of 20 bytes, for the witnesses.\<close>

definition sample_tcp :: string where
  "sample_tcp = map char_of [1, 187, 0, 80, 0, 0, 0, 0, 0, 0, 0, 0, 80, 0, 0, 0, 0, 0, 0, 0 :: nat]"

lemma sample_packet_fields:
  "length (sample_packet src proto tlen rest) = 34 + length rest"
  "size_ip_of (sample_packet src proto tlen rest) = 20"
  "byte (sample_packet src proto tlen rest) ip_p_at = proto mod 256"
  "source_of (sample_packet src proto tlen rest) = src"
  "ip_len_of (sample_packet src proto tlen rest) = 256 * (tlen div 256 mod 256) + tlen mod 256"
  "byte (sample_packet src proto tlen rest) (34 + i) = byte rest i"
  by (simp_all add: sample_packet_def size_ip_of_def IP_HL_def byte_def SIZE_ETHERNET_def nth_append
      source_of_def ip_len_of_def)

theorem packet_handled_iff_safe_witness:
  "fw_got_packet False (sample_packet 43200 6 1000 sample_tcp) sample_state = Fault Oob_Read"
proof -
  have "\<not> packet_safe (sample_packet 43200 6 1000 sample_tcp)"
    by (simp add: packet_safe_def header_ok_def size_tcp_of_def size_ip_of_def ip_len_of_def TH_OFF_def IP_HL_def
        IPPROTO_TCP_def SIZE_ETHERNET_def sample_packet_def sample_tcp_def byte_def nth_append)
  then show ?thesis using packet_handled_iff_safe [of sample_state "sample_packet 43200 6 1000 sample_tcp"]
    by (simp add: sample_state_def)
qed






text \<open>
  A network whose prefix has a bit outside the mask (a host address such as
  192.168.1.5/24, or 172.16.16.0/20, whose mask does not end on an octet) never matches: no
  capture changes the counter of untrusted packets.
\<close>

theorem host_bits_never_match:
  assumes "ip_prefix net AND mask (unat (netmask net)) \<noteq> ip_prefix net"
    and "fw_mask_setup net s = Ret s'" and "fw_keep_running s"
    and "fw_capture ps s' = Ret (es, s'')"
  shows "fw_untrusted_counter s'' = fw_untrusted_counter s"
proof -
  have s': "fw_keep_running s'" "fw_untrusted_counter s' = fw_untrusted_counter s"
    using assms(2,3) by (auto simp: fw_mask_setup_def split: if_splits)
  have "counted s' p = False" for p
    using fw_mask_setup_match [OF assms(2)] assms(1) by (simp add: counted_def)
  then have "filter (counted s') ps = []" by simp
  then show ?thesis using fw_capture_state [OF assms(4) s'(1)] s'(2) by simp
qed

theorem host_bits_never_match_witness:
  "\<exists>s' es s''. fw_mask_setup \<lparr>ip_prefix = 1052844, netmask = 20\<rparr> sample_state = Ret s'
     \<and> fw_capture [sample_packet 17830060 17 20 []] s' = Ret (es, s'') \<and> fw_untrusted_counter s'' = 0"
proof -
  let ?p = "sample_packet 17830060 17 20 []"
  obtain s' where s': "fw_mask_setup \<lparr>ip_prefix = 1052844, netmask = 20\<rparr> sample_state = Ret s'"
    by (simp add: fw_mask_setup_def)
  then have "fw_keep_running s'" by (auto simp: fw_mask_setup_def sample_state_def split: if_splits)
  moreover have "packet_safe ?p"
    using sample_packet_fields(1,3) by (simp add: packet_safe_def SIZE_ETHERNET_def IPPROTO_TCP_def)
  ultimately obtain es s'' where r: "fw_capture [?p] s' = Ret (es, s'')"
    using fw_capture_returns [of "[?p]" s'] by auto
  have "(1052844 :: u32) AND mask 20 \<noteq> 1052844" by (simp add: mask_eq_exp_minus_1)
  then have "fw_untrusted_counter s'' = fw_untrusted_counter sample_state"
    using host_bits_never_match [OF _ s' _ r] by (simp add: sample_state_def)
  then show ?thesis using s' r by (auto simp: sample_state_def)
qed

text \<open>
  The ethernet header is not looked at.  Two frames that differ only in their
  first 14 bytes are handled alike: an ARP or IPv6 frame is read as if it held IPv4.
\<close>

theorem ethernet_header_ignored:
  assumes "length e1 = SIZE_ETHERNET" and "length e2 = SIZE_ETHERNET"
  shows "fw_got_packet n (e1 @ p) s = fw_got_packet n (e2 @ p) s"
proof -
  have r8: "rd8 (e1 @ p) (SIZE_ETHERNET + i) = rd8 (e2 @ p) (SIZE_ETHERNET + i)" for i
    using assms by (simp add: rd8_def)
  then have r8_0: "rd8 (e1 @ p) SIZE_ETHERNET = rd8 (e2 @ p) SIZE_ETHERNET" by (metis add_0_right)
  have r16: "rd16 (e1 @ p) (SIZE_ETHERNET + i) = rd16 (e2 @ p) (SIZE_ETHERNET + i)" for i
    using r8 [of i] r8 [of "i + 1"] by (simp add: rd16_def)
  have r32: "rd32 (e1 @ p) (SIZE_ETHERNET + i) = rd32 (e2 @ p) (SIZE_ETHERNET + i)" for i
    using assms by (simp add: rd32_def)
  have dr: "drop (SIZE_ETHERNET + i) (e1 @ p) = drop (SIZE_ETHERNET + i) (e2 @ p)" for i
    using assms by simp
  have tcp: "fw_got_tcp (e1 @ p) k = fw_got_tcp (e2 @ p) k" for k
    unfolding fw_got_tcp_def add.assoc r8 r16 dr by (rule refl)
  show ?thesis
    unfolding fw_got_packet_def r8 r8_0 r32 tcp by (rule refl)
qed

theorem ethernet_header_ignored_witness:
  "fw_got_packet False (replicate 14 (CHR ''x'') @ drop 14 (sample_packet 43200 17 20 [])) sample_state
     = fw_got_packet False (sample_packet 43200 17 20 []) sample_state"
  using ethernet_header_ignored [of "replicate 14 (CHR ''x'')" "replicate 14 NUL" False
      "drop 14 (sample_packet 43200 17 20 [])" sample_state]
  by (simp add: SIZE_ETHERNET_def sample_packet_def)

end
