(* ===== verification/Firewall_Start.thy ===== *)
theory Firewall_Start
  imports Iptables Packet_Filter
begin

text \<open>
  The driver \<open>start\<close> of \<open>services/firewall_service/firewall_service_main.c\<close>: configuration,
  mask, devices, iptables rules, one capture thread per device, the wait for the threads and
  the clean-up.  Everything the operating system and libpcap decide is a field of the
  environment.  The model covers the runs in which SIGINT arrives at last: until then the
  loop that waits for it does not end.
\<close>

section \<open>Environment\<close>

definition FW_ATTR_IFACE_ALL :: string where "FW_ATTR_IFACE_ALL = ''all''"
definition FW_ONE_IFACE_SET :: u8 where "FW_ONE_IFACE_SET = 1"
definition FW_MAX_SEC_WAIT :: nat where "FW_MAX_SEC_WAIT = 30"
definition FW_DEVICE_MAX_LEN :: nat where "FW_DEVICE_MAX_LEN = 32"

text \<open>
  \<open>fe_devices\<close> is the list \<open>pcap_findalldevs\<close> finds (\<^term>\<open>None\<close> when it fails),
  \<open>fe_running i\<close> the value of \<open>fw_keep_running\<close> before thread \<open>i\<close> is created, \<open>fe_create i\<close>
  the result of \<open>pthread_create\<close>, \<open>fe_tryjoin i k\<close> that of the \<open>k\<close>th \<open>pthread_tryjoin_np\<close>.
\<close>

record fw_env =
  fe_conf :: conf_env
  fe_freopen :: bool
  fe_devices :: "string list option"
  fe_mutex :: bool
  fe_shell :: shell
  fe_running :: "nat \<Rightarrow> bool"
  fe_create :: "nat \<Rightarrow> int"
  fe_tryjoin :: "nat \<Rightarrow> nat \<Rightarrow> int"

section \<open>Devices\<close>

text \<open>The number of devices is counted in a \<open>uint8_t\<close>.\<close>

definition fw_find_devices :: "fw_env \<Rightarrow> string \<Rightarrow> u8 \<times> string list" where
  "fw_find_devices env iface =
     (if iface = FW_ATTR_IFACE_ALL
      then (case fe_devices env of None \<Rightarrow> (0, []) | Some alldevs \<Rightarrow> (of_nat (length alldevs), alldevs))
      else (FW_ONE_IFACE_SET, []))"

text \<open>\<open>strncpy(thread_args[i].device_name, device_name, strlen(device_name))\<close>\<close>

definition set_device_name :: "string list \<Rightarrow> u8 \<Rightarrow> string \<Rightarrow> string list outcome" where
  "set_device_name args i name =
     (if unat i < length args
      then obind (oget Oob_Write (strncpy_len (args ! unat i) name)) (\<lambda>d. Ret (args[unat i := d]))
      else Fault Oob_Write)"

text \<open>
  The loop over the devices.  \<open>alldevs\<close> does not change in it: when it is \<open>NULL\<close> so is
  \<open>device\<close>, and every round takes the configured interface; otherwise every round moves to
  the next device before it takes a name, and the loop is left when there is none.
\<close>

function iface_loop :: "string \<Rightarrow> u8 \<Rightarrow> u8 \<Rightarrow> string list \<Rightarrow> string list outcome" where
  "iface_loop iface i devices_num args =
     (if i < devices_num
      then obind (set_device_name args i iface) (\<lambda>a. iface_loop iface (i + 1) devices_num a)
      else Ret args)"
  by pat_completeness auto
termination
proof (relation "measure (\<lambda>(iface, i, n, args). unat n - unat i)", goal_cases)
  case 1
  then show ?case by simp
next
  case (2 iface i n args a)
  then have "unat i < unat n" and "unat n < 256"
    by (simp_all add: word_less_nat_alt unat_u8_less)
  moreover from this have "unat (i + 1) = unat i + 1" by (simp add: unat_word_ariths)
  ultimately show ?case by simp
qed

declare iface_loop.simps [simp del]

fun device_loop :: "string list \<Rightarrow> u8 \<Rightarrow> string list \<Rightarrow> string list outcome" where
  "device_loop [] i args = Ret args"
| "device_loop [d] i args = Ret args"
| "device_loop (d # d' # ds) i args =
     obind (set_device_name args i d') (\<lambda>a. device_loop (d' # ds) (i + 1) a)"

definition fw_thread_args :: "u8 \<Rightarrow> string list \<Rightarrow> string \<Rightarrow> string list outcome" where
  "fw_thread_args devices_num alldevs iface =
     (let args = replicate (unat devices_num) (replicate FW_DEVICE_MAX_LEN NUL) in
      if alldevs = [] then iface_loop iface 0 devices_num args
      else device_loop alldevs 0 args)"

section \<open>Threads\<close>

text \<open>The result: a failed creation, or the number of threads and \<open>rc\<close> (unset when there are none).\<close>

datatype create_end = Create_Failed | Created nat "int option"

function create_loop :: "fw_env \<Rightarrow> nat \<Rightarrow> nat \<Rightarrow> int option \<Rightarrow> create_end" where
  "create_loop env n i rc =
     (if i < n \<and> fe_running env i then
        (if fe_create env i \<noteq> FW_SERVICE_NORMAL_CODE then Create_Failed
         else create_loop env n (i + 1) (Some (fe_create env i)))
      else Created i rc)"
  by pat_completeness auto
termination
  by (relation "measure (\<lambda>(env, n, i, rc). n - i)") auto

declare create_loop.simps [simp del]

text \<open>The wait for one thread, from \<open>total_sleep\<close> on: does it end with the timeout?\<close>

definition join_loop :: "(nat \<Rightarrow> int) \<Rightarrow> nat \<Rightarrow> bool" where
  "join_loop tryjoin total_sleep = wait_join FW_MAX_SEC_WAIT tryjoin total_sleep"

function join_threads :: "fw_env \<Rightarrow> nat \<Rightarrow> nat \<Rightarrow> nat \<Rightarrow> int option \<Rightarrow> int outcome" where
  "join_threads env n created i rc =
     (if i < n then
        (if created \<le> i then Fault Uninit_Read
         else join_threads env n created (i + 1)
                (if join_loop (fe_tryjoin env i) 0 then Some FW_SERVICE_ERROR_CODE else rc))
      else oget Uninit_Read rc)"
  by pat_completeness auto
termination
  by (relation "measure (\<lambda>(env, n, created, i, rc). n - i)") auto

declare join_threads.simps [simp del]

section \<open>The driver\<close>

definition fw_free_and_exit :: "shell \<Rightarrow> int \<Rightarrow> string list \<Rightarrow> (int \<times> string list) outcome" where
  "fw_free_and_exit sys rc hist =
     obind (fw_ip_tables_flush sys hist) (\<lambda>(r1, h1).
       if r1 < 0 then Ret (rc OR 1, h1)
       else obind (fw_ip_tables_save sys h1) (\<lambda>(r2, h2). Ret (rc OR (if r2 < 0 then 1 else 0), h2)))"

text \<open>From the first flush to the end, on the devices found.\<close>

definition fw_run :: "fw_env \<Rightarrow> fw_config_attrs \<Rightarrow> u8 \<Rightarrow> string list \<Rightarrow> (int \<times> string list) outcome" where
  "fw_run env attrs devices_num hist =
     obind (fw_ip_tables_flush (fe_shell env) hist) (\<lambda>(_, h1).
     obind (fw_untrusted_network_rules_init (fe_shell env) h1) (\<lambda>(r2, h2).
     obind (if r2 \<noteq> 0 then Ret (r2, h2) else fw_trusted_network_rules_init (fe_shell env) h2) (\<lambda>(r3, h3).
       if r3 \<noteq> 0 then fw_free_and_exit (fe_shell env) FW_SERVICE_ERROR_CODE h3
       else
         obind (fw_add_block_rule_for_untrusted_zone (fe_shell env)
                  (ip_prefix (fw_untrusted_network attrs)) (netmask (fw_untrusted_network attrs)) h3) (\<lambda>(r4, h4).
         obind (if r4 \<noteq> FW_SERVICE_NORMAL_CODE then Ret (r4, h4)
                else fw_add_accept_rule_for_trusted_zone (fe_shell env)
                       (ip_prefix (fw_trusted_network attrs)) (netmask (fw_trusted_network attrs))
                       (fw_attr_interface attrs) h4) (\<lambda>(r5, h5).
           if r5 \<noteq> FW_SERVICE_NORMAL_CODE then fw_free_and_exit (fe_shell env) FW_SERVICE_ERROR_CODE h5
           else
             obind (fw_ip_tables_save (fe_shell env) h5) (\<lambda>(_, h6).
               case create_loop env (unat devices_num) 0 None of
                 Create_Failed \<Rightarrow> fw_free_and_exit (fe_shell env) FW_SERVICE_ERROR_CODE h6
               | Created k rc \<Rightarrow>
                   obind (join_threads env (unat devices_num) k 0 rc) (\<lambda>rc'.
                     fw_free_and_exit (fe_shell env) rc' h6)))))))"

definition fw_start ::
  "fw_env \<Rightarrow> fw_config_attrs \<times> fw_state \<Rightarrow> string list \<Rightarrow>
     (int \<times> (fw_config_attrs \<times> fw_state \<times> string list) \<times> string list) outcome" where
  "fw_start env s hist =
     (case s of (attrs, st) \<Rightarrow>
      if \<not> fe_freopen env then Ret (FW_SERVICE_ERROR_CODE, (attrs, st, []), hist)
      else
        obind (fw_parse_and_serialize_config (ce_cap (fe_conf env)) (ce_after (fe_conf env))
                 (ce_getcwd (fe_conf env)) (ce_open1 (fe_conf env)) (ce_open2 (fe_conf env))
                 (ce_lines (fe_conf env)) (ce_alloc (fe_conf env)) attrs) (\<lambda>(prc, attrs1).
          if prc \<noteq> FW_SERVICE_NORMAL_CODE then Ret (FW_SERVICE_ERROR_CODE, (attrs1, st, []), hist)
          else
            obind (fw_mask_setup (fw_untrusted_network attrs1) st) (\<lambda>st1.
            obind (oget Oob_Read (cstring (fw_attr_interface attrs1))) (\<lambda>iface.
              let devices_num = fst (fw_find_devices env iface); alldevs = snd (fw_find_devices env iface) in
              if devices_num = 0 then Ret (FW_SERVICE_ERROR_CODE, (attrs1, st1, []), hist)
              else if devices_num \<noteq> FW_ONE_IFACE_SET \<and> \<not> fe_mutex env
              then Ret (FW_SERVICE_ERROR_CODE, (attrs1, st1, []), hist)
              else
                obind (fw_thread_args devices_num alldevs iface) (\<lambda>args.
                obind (fw_run env attrs1 devices_num hist) (\<lambda>(rc, h).
                  Ret (rc, (attrs1, st1, args), h)))))))"

section \<open>The names the threads get\<close>

abbreviation no_name :: string where
  "no_name \<equiv> replicate FW_DEVICE_MAX_LEN NUL"

lemma set_device_name_next:
  assumes "length pre = unat i" and "length d \<le> FW_DEVICE_MAX_LEN"
  shows "set_device_name (pre @ no_name # rest) i d = Ret (pre @ padded FW_DEVICE_MAX_LEN d # rest)"
  using assms by (simp add: set_device_name_def nth_append list_update_append flip: assms(1))

lemma unat_Suc_u8: "unat (i :: u8) < 255 \<Longrightarrow> unat (i + 1) = Suc (unat i)"
  by (simp add: unat_word_ariths)

lemma device_loop_fits:
  assumes "length pre = unat i" and "unat i + length ds \<le> 255"
    and "\<forall>d \<in> set ds. length d \<le> FW_DEVICE_MAX_LEN"
  shows "device_loop (d # ds) i (pre @ replicate (length ds + k) no_name)
           = Ret (pre @ map (padded FW_DEVICE_MAX_LEN) ds @ replicate k no_name)"
  using assms
proof (induction ds arbitrary: d i pre)
  case Nil
  then show ?case by simp
next
  case (Cons d' ds)
  have "device_loop (d' # ds) (i + 1) ((pre @ [padded FW_DEVICE_MAX_LEN d']) @ replicate (length ds + k) no_name)
      = Ret ((pre @ [padded FW_DEVICE_MAX_LEN d']) @ map (padded FW_DEVICE_MAX_LEN) ds @ replicate k no_name)"
    using Cons.prems by (intro Cons.IH) (auto simp: unat_Suc_u8)
  then show ?case using Cons.prems by (simp add: set_device_name_next)
qed

lemma device_loop_overruns:
  assumes "length pre = unat i" and "unat i + k \<le> 255" and "k < length ds"
    and "\<forall>d \<in> set ds. length d \<le> FW_DEVICE_MAX_LEN"
  shows "device_loop (d # ds) i (pre @ replicate k no_name) = Fault Oob_Write"
  using assms
proof (induction k arbitrary: d ds i pre)
  case 0
  then obtain d' ds' where "ds = d' # ds'" by (cases ds) auto
  with 0 show ?case by (simp add: set_device_name_def)
next
  case (Suc k)
  then obtain d' ds' where ds: "ds = d' # ds'" by (cases ds) auto
  have "device_loop (d' # ds') (i + 1) ((pre @ [padded FW_DEVICE_MAX_LEN d']) @ replicate k no_name)
      = Fault Oob_Write"
    using Suc.prems ds by (intro Suc.IH) (auto simp: unat_Suc_u8)
  then show ?case using Suc.prems by (simp add: ds set_device_name_next)
qed

section \<open>Threads\<close>

lemma join_loop_from: "t < 30 \<Longrightarrow> join_loop tryjoin t \<longleftrightarrow> (\<forall>k \<in> {t..<30}. tryjoin k \<noteq> 0)"
  using wait_join_from [of t FW_MAX_SEC_WAIT tryjoin] by (simp add: join_loop_def FW_MAX_SEC_WAIT_def)

text \<open>A timeout is never forgotten; a result of 0 means that every thread was joined.\<close>

lemma join_threads_stuck:
  "join_threads env n created j (Some FW_SERVICE_ERROR_CODE) = Ret rc \<Longrightarrow> rc = FW_SERVICE_ERROR_CODE"
proof (induction "n - j" arbitrary: j)
  case 0
  then show ?case by (simp add: join_threads.simps [of env n created j])
next
  case (Suc m)
  have "rc = FW_SERVICE_ERROR_CODE"
    if "join_threads env n created (j + 1) (Some FW_SERVICE_ERROR_CODE) = Ret rc"
    using Suc.hyps that by (intro Suc.hyps(1)) simp_all
  with Suc show ?case by (simp add: join_threads.simps [of env n created j] split: if_splits)
qed

lemma join_threads_0:
  "join_threads env n created i rc = Ret 0 \<Longrightarrow>
     \<forall>j \<in> {i..<n}. j < created \<and> \<not> join_loop (fe_tryjoin env j) 0"
proof (induction "n - i" arbitrary: i rc)
  case 0
  then show ?case by simp
next
  case (Suc m)
  then have i: "i < n" and "{i..<n} = insert i {Suc i..<n}" by auto
  have "i < created" and nj: "\<not> join_loop (fe_tryjoin env i) 0"
    and rest: "join_threads env n created (Suc i) rc = Ret 0"
    using Suc.prems i join_threads_stuck [of env n created "Suc i" 0]
    by (auto simp: join_threads.simps [of env n created i] FW_SERVICE_ERROR_CODE_def split: if_splits)
  with Suc.hyps(1) [OF _ rest] Suc.hyps(2) \<open>{i..<n} = _\<close> show ?case by simp
qed

section \<open>The run and its commands\<close>

definition final_cmds :: "string list" where
  "final_cmds = flush_cmds @ [''sudo iptables-save'']"

definition setup_cmds :: "string \<Rightarrow> fw_network \<Rightarrow> fw_network \<Rightarrow> string list" where
  "setup_cmds iface untrusted trusted =
     flush_cmds @ [cmd_new UNTRUSTED_ZONE_RULES, cmd_new TRUSTED_ZONE_RULES] @ block_cmds untrusted @
     accept_cmds iface trusted @ [''sudo iptables-save'']"

lemma fw_free_and_exit_eq: "fw_free_and_exit sys rc hist = Ret (rc, hist @ final_cmds)"
  by (simp add: fw_free_and_exit_def flush_eq save_eq final_cmds_def)

text \<open>A run ends at the first set-up command that cannot be run, or with the threads.\<close>

lemma fw_run_eq:
  assumes "cstring (fw_attr_interface attrs) = Some name" and "fw_attrs_wf attrs"
  shows "fw_run env attrs n hist =
    (let h1 = hist @ flush_cmds; h2 = h1 @ [cmd_new UNTRUSTED_ZONE_RULES]; h3 = h2 @ [cmd_new TRUSTED_ZONE_RULES];
         h4 = h3 @ block_cmds (fw_untrusted_network attrs);
         h5 = h4 @ accept_cmds name (fw_trusted_network attrs);
         h6 = h5 @ [''sudo iptables-save''];
         fail = (\<lambda>h. Ret (FW_SERVICE_ERROR_CODE, h @ final_cmds))
     in if some_negative (fe_shell env) [cmd_new UNTRUSTED_ZONE_RULES] h1 then fail h2
        else if some_negative (fe_shell env) [cmd_new TRUSTED_ZONE_RULES] h2 then fail h3
        else if some_negative (fe_shell env) (block_cmds (fw_untrusted_network attrs)) h3 then fail h4
        else if some_negative (fe_shell env) (accept_cmds name (fw_trusted_network attrs)) h4 then fail h5
        else (case create_loop env (unat n) 0 None of Create_Failed \<Rightarrow> fail h6
              | Created k rc \<Rightarrow>
                  obind (join_threads env (unat n) k 0 rc) (\<lambda>rc'. Ret (rc', h6 @ final_cmds))))"
proof -
  have "length (fw_attr_interface attrs) \<le> 16"
    using assms(2) by (simp add: fw_attrs_wf_def FW_MIN_BUF_SIZE_def)
  note acc = accept_eq [OF assms(1) this]
  show ?thesis
    by (simp add: fw_run_def flush_eq chain_eqs block_eq acc save_eq fw_free_and_exit_eq Let_def
        FW_SERVICE_NORMAL_CODE_def del: some_negative.simps split: create_end.split)
qed

lemma fw_start_RetD:
  assumes "fw_start env (attrs, st) hist = Ret (rc, (attrs1, st1, args), h)"
  shows "(rc = FW_SERVICE_ERROR_CODE \<and> h = hist) \<or>
    (\<exists>name n. cstring (fw_attr_interface attrs1) = Some name \<and>
       n = fst (fw_find_devices env name) \<and> n \<noteq> 0 \<and> fw_run env attrs1 n hist = Ret (rc, h) \<and>
       fw_mask_setup (fw_untrusted_network attrs1) st = Ret st1 \<and>
       fw_thread_args n (snd (fw_find_devices env name)) name = Ret args)"
  using assms by (auto simp: fw_start_def c_simps Let_def split: if_splits)

lemma fw_start_wf:
  assumes "fw_attrs_wf attrs" and "fw_start env (attrs, st) hist = Ret (rc, (attrs1, st1, args), h)"
  shows "fw_attrs_wf attrs1"
  using assms
  by (auto simp: fw_start_def c_simps Let_def split: if_splits dest: fw_parse_wf)

section \<open>Properties\<close>

text \<open>
  Claim C11: what a successful run has done.  When the driver returns 0, the commands it
  issued are, in this order: flush the three chains and delete two, create the two chains,
  the two blocking rules for the untrusted and the two accepting rules for the trusted network
  of the configuration, save, and for the clean-up flush, delete and save; no command failed to
  start in between, and every thread was joined within 30 attempts.
\<close>

theorem fw_start_success:
  assumes "fw_start env (attrs, st) hist = Ret (FW_SERVICE_NORMAL_CODE, (attrs1, st1, args), h)"
    and "fw_attrs_wf attrs"
  shows "\<exists>name. cstring (fw_attr_interface attrs1) = Some name
     \<and> h = hist @ setup_cmds name (fw_untrusted_network attrs1) (fw_trusted_network attrs1) @ final_cmds
     \<and> (\<forall>i < unat (fst (fw_find_devices env name)). \<exists>k < 30. fe_tryjoin env i k = 0)"
proof -
  from fw_start_RetD [OF assms(1)] obtain name n where name: "cstring (fw_attr_interface attrs1) = Some name"
    and n: "n = fst (fw_find_devices env name)" and run: "fw_run env attrs1 n hist = Ret (FW_SERVICE_NORMAL_CODE, h)"
    by (auto simp: FW_SERVICE_NORMAL_CODE_def FW_SERVICE_ERROR_CODE_def)
  note eq = fw_run_eq [OF name fw_start_wf [OF assms(2,1)]]
  from run obtain k rc where "join_threads env (unat n) k 0 rc = Ret 0"
    and h: "h = hist @ setup_cmds name (fw_untrusted_network attrs1) (fw_trusted_network attrs1) @ final_cmds"
    by (auto simp: eq Let_def setup_cmds_def FW_SERVICE_NORMAL_CODE_def FW_SERVICE_ERROR_CODE_def c_simps
        simp del: some_negative.simps split: if_splits create_end.splits)
  have "\<exists>k < 30. fe_tryjoin env i k = 0" if "i < unat n" for i
    using join_threads_0 [OF \<open>join_threads env (unat n) k 0 rc = Ret 0\<close>] that
      join_loop_from [of 0 "fe_tryjoin env i"] by auto
  with name n h show ?thesis by auto
qed

text \<open>The repository's configuration, one interface, a shell that runs everything.\<close>

definition sample_conf :: conf_env where
  "sample_conf = \<lparr>ce_cap = gcc_cap, ce_after = [LF], ce_getcwd = Some ''/b'', ce_open1 = (\<lambda>_. Some repo_config),
     ce_open2 = (\<lambda>_. Some repo_config), ce_lines = 0, ce_alloc = (\<lambda>_. True)\<rparr>"

definition sample_env :: "shell \<Rightarrow> fw_env" where
  "sample_env sys = \<lparr>fe_conf = sample_conf, fe_freopen = True, fe_devices = None, fe_mutex = True,
     fe_shell = sys, fe_running = (\<lambda>_. True), fe_create = (\<lambda>_. 0), fe_tryjoin = (\<lambda>_ _. 0)\<rparr>"

definition repo_attrs :: fw_config_attrs where
  "repo_attrs = \<lparr>fw_attr_interface = ''eno1'' @ replicate 12 NUL, fw_attr_filter = ''ip'' @ replicate 14 NUL,
     fw_untrusted_network = \<lparr>ip_prefix = 43200, netmask = 24\<rparr>,
     fw_trusted_network = \<lparr>ip_prefix = 108736, netmask = 24\<rparr>, fw_attr_pcts_num = 10\<rparr>"

lemma repo_attrs_parsed:
  "fw_parse_and_serialize_config gcc_cap [LF] (Some ''/b'') (\<lambda>_. Some repo_config) (\<lambda>_. Some repo_config)
     0 (\<lambda>_. True) fw_attrs_init = Ret (0, repo_attrs)"
proof -
  let ?es = "fw_entries ''eno1'' ''ip'' 10 \<lparr>ip_prefix = 43200, netmask = 24\<rparr> \<lparr>ip_prefix = 108736, netmask = 24\<rparr>"
  have ok: "conf_ok ?es" and appl: "apply_entries fw_handle_entry ?es fw_attrs_init = Ret (0, repo_attrs)"
    using fw_entries_ok [of "''eno1''" "''ip''" 10] fw_apply_entries [of "''eno1''" "''ip''" 10] repo_networks_ok
    by (simp_all add: line_text_def FW_MIN_BUF_SIZE_def repo_attrs_def)
  have es: "?es = (FW_INTERFACE_DEFINE, ''eno1'') # tl ?es" and ne: "tl ?es \<noteq> []"
    by (simp_all add: fw_entries_def)
  show ?thesis
    unfolding appl [symmetric] repo_config_entries
    by (rule fw_parse_file(1) [OF ok _ _ _ _ es ne repo_slack, of _ "''/b''" _ False]) simp_all
qed

lemma sample_start:
  assumes "\<And>h c. 0 \<le> sys h c"
  shows "\<exists>st1 args. fw_start (sample_env sys) (fw_attrs_init, sample_state) hist =
    Ret (FW_SERVICE_NORMAL_CODE, (repo_attrs, st1, args),
         hist @ setup_cmds ''eno1'' (fw_untrusted_network repo_attrs) (fw_trusted_network repo_attrs) @ final_cmds)"
proof -
  have name: "cstring (fw_attr_interface repo_attrs) = Some ''eno1''"
    using cstring_padded [of "''eno1''" 16] by (simp add: repo_attrs_def padded_def)
  have wf: "fw_attrs_wf repo_attrs"
    by (simp add: repo_attrs_def fw_attrs_wf_def FW_MIN_BUF_SIZE_def)
  have dev: "fw_find_devices (sample_env sys) ''eno1'' = (1, [])"
    by (simp add: fw_find_devices_def FW_ATTR_IFACE_ALL_def FW_ONE_IFACE_SET_def)
  have "create_loop (sample_env sys) 1 0 None = Created 1 (Some 0)"
    by (simp add: create_loop.simps [of _ "Suc 0"] sample_env_def FW_SERVICE_NORMAL_CODE_def)
  moreover have "join_threads (sample_env sys) 1 1 0 (Some 0) = Ret 0"
    by (simp add: join_threads.simps [of _ "Suc 0"] join_loop_def wait_join.simps [of _ _ 0] sample_env_def)
  ultimately have run: "fw_run (sample_env sys) repo_attrs 1 hist = Ret (FW_SERVICE_NORMAL_CODE,
      hist @ setup_cmds ''eno1'' (fw_untrusted_network repo_attrs) (fw_trusted_network repo_attrs) @ final_cmds)"
    using assms some_negative_none [of sys]
    by (simp add: fw_run_eq [OF name wf] sample_env_def setup_cmds_def FW_SERVICE_NORMAL_CODE_def Let_def
        del: some_negative.simps)
  obtain st1 where st1: "fw_mask_setup (fw_untrusted_network repo_attrs) sample_state = Ret st1"
    by (simp add: fw_mask_setup_def repo_attrs_def)
  have "iface_loop ''eno1'' 0 1 [no_name] = Ret [padded FW_DEVICE_MAX_LEN ''eno1'']"
    by (simp add: iface_loop.simps [of _ _ 1] set_device_name_def FW_DEVICE_MAX_LEN_def)
  then have args: "fw_thread_args 1 [] ''eno1'' = Ret [padded FW_DEVICE_MAX_LEN ''eno1'']"
    by (simp add: fw_thread_args_def)
  have "fw_start (sample_env sys) (fw_attrs_init, sample_state) hist =
      Ret (FW_SERVICE_NORMAL_CODE, (repo_attrs, st1, [padded FW_DEVICE_MAX_LEN ''eno1'']),
         hist @ setup_cmds ''eno1'' (fw_untrusted_network repo_attrs) (fw_trusted_network repo_attrs) @ final_cmds)"
    using repo_attrs_parsed
    by (simp add: fw_start_def sample_env_def sample_conf_def FW_SERVICE_NORMAL_CODE_def st1 name
        dev [unfolded sample_env_def sample_conf_def] args run [unfolded sample_env_def sample_conf_def]
        FW_ONE_IFACE_SET_def)
  then show ?thesis by blast
qed

theorem fw_start_success_witness:
  "\<exists>r h. fw_start (sample_env (\<lambda>_ _. 0)) (fw_attrs_init, sample_state) [] = Ret (FW_SERVICE_NORMAL_CODE, r, h)
     \<and> drop (length h - 1) h = [''sudo iptables-save'']"
proof -
  obtain st1 args h where r: "fw_start (sample_env (\<lambda>_ _. 0)) (fw_attrs_init, sample_state) []
      = Ret (FW_SERVICE_NORMAL_CODE, (repo_attrs, st1, args), h)"
    using sample_start [of "\<lambda>_ _. 0" "[]"] by auto
  from fw_start_success [OF r fw_attrs_init_wf] r show ?thesis by (auto simp: final_cmds_def)
qed

text \<open>
  Claim C33: no return leaves the rules behind.  However the driver returns, either it issued
  no command at all (and reports an error), or the last commands are the flush, the removal of
  both chains and the save.
\<close>

theorem fw_start_cleans_up:
  assumes "fw_start env (attrs, st) hist = Ret (rc, (attrs1, st1, args), h)" and "fw_attrs_wf attrs"
  shows "(h = hist \<and> rc = FW_SERVICE_ERROR_CODE) \<or> (\<exists>mid. h = hist @ flush_cmds @ mid @ final_cmds)"
proof -
  from fw_start_RetD [OF assms(1)] show ?thesis
  proof (elim disjE exE conjE)
    fix name n
    assume name: "cstring (fw_attr_interface attrs1) = Some name" and run: "fw_run env attrs1 n hist = Ret (rc, h)"
    from run show ?thesis
      by (auto simp: fw_run_eq [OF name fw_start_wf [OF assms(2,1)]] Let_def c_simps
          simp del: some_negative.simps split: if_splits create_end.splits)
  qed simp
qed

theorem fw_start_cleans_up_witness:
  "\<exists>r h mid. fw_start (sample_env (\<lambda>_ _. 0)) (fw_attrs_init, sample_state) [''ls''] = Ret (FW_SERVICE_NORMAL_CODE, r, h)
     \<and> h = [''ls''] @ flush_cmds @ mid @ final_cmds"
proof -
  obtain st1 args h where r: "fw_start (sample_env (\<lambda>_ _. 0)) (fw_attrs_init, sample_state) [''ls'']
      = Ret (FW_SERVICE_NORMAL_CODE, (repo_attrs, st1, args), h)"
    using sample_start [of "\<lambda>_ _. 0" "[''ls'']"] by auto
  from fw_start_cleans_up [OF r fw_attrs_init_wf] r show ?thesis
    by (auto simp: FW_SERVICE_NORMAL_CODE_def FW_SERVICE_ERROR_CODE_def)
qed

text \<open>
  Claim C34: exit codes are ignored.  A command that runs and fails has a positive status; as
  only negative results are tested, the driver behaves in every respect as if all iptables
  commands had succeeded, whatever they answer.
\<close>

theorem iptables_failures_ignored:
  assumes "\<And>h c. 0 \<le> sys h c"
  shows "fw_start (env\<lparr>fe_shell := sys\<rparr>) s hist = fw_start (env\<lparr>fe_shell := \<lambda>_ _. 0\<rparr>) s hist"
proof -
  have sf: "system_fails sys = system_fails (\<lambda>_ _. 0)"
    using assms by (auto simp: system_fails_def fun_eq_iff not_less)
  then have rb: "run_buffer sys = run_buffer (\<lambda>_ _. 0)" by (simp add: run_buffer_def fun_eq_iff)
  then have fl: "fw_ip_tables_flush sys = fw_ip_tables_flush (\<lambda>_ _. 0)"
    and sv: "fw_ip_tables_save sys = fw_ip_tables_save (\<lambda>_ _. 0)"
    and bl: "fw_add_block_rule_for_untrusted_zone sys = fw_add_block_rule_for_untrusted_zone (\<lambda>_ _. 0)"
    and ac: "fw_add_accept_rule_for_trusted_zone sys = fw_add_accept_rule_for_trusted_zone (\<lambda>_ _. 0)"
    and ti: "fw_trusted_network_rules_init sys = fw_trusted_network_rules_init (\<lambda>_ _. 0)"
    and ui: "fw_untrusted_network_rules_init sys = fw_untrusted_network_rules_init (\<lambda>_ _. 0)"
    by (simp_all add: fun_eq_iff fw_ip_tables_flush_def fw_trusted_network_rules_destroy_def
        fw_untrusted_network_rules_destroy_def fw_ip_tables_save_def sf fw_add_block_rule_for_untrusted_zone_def
        fw_add_accept_rule_for_trusted_zone_def fw_trusted_network_rules_init_def
        fw_untrusted_network_rules_init_def)
  have ex: "fw_free_and_exit sys = fw_free_and_exit (\<lambda>_ _. 0)"
    by (intro ext) (simp only: fw_free_and_exit_def fl sv)
  have cl: "create_loop (env\<lparr>fe_shell := sys\<rparr>) n i rc = create_loop (env\<lparr>fe_shell := \<lambda>_ _. 0\<rparr>) n i rc" for n i rc
    by (induction "n - i" arbitrary: i rc) (simp_all add: create_loop.simps [of _ n])
  have jt: "join_threads (env\<lparr>fe_shell := sys\<rparr>) n k i rc = join_threads (env\<lparr>fe_shell := \<lambda>_ _. 0\<rparr>) n k i rc"
    for n k i rc
    by (induction "n - i" arbitrary: i rc) (simp_all add: join_threads.simps [of _ n])
  have sel: "fe_shell (env\<lparr>fe_shell := x\<rparr>) = x" for x by simp
  have "fw_run (env\<lparr>fe_shell := sys\<rparr>) = fw_run (env\<lparr>fe_shell := \<lambda>_ _. 0\<rparr>)"
    by (intro ext) (simp only: fw_run_def sel fl sv bl ac ti ui ex cl jt)
  moreover have "fw_find_devices (env\<lparr>fe_shell := sys\<rparr>) = fw_find_devices (env\<lparr>fe_shell := \<lambda>_ _. 0\<rparr>)"
    by (simp add: fun_eq_iff fw_find_devices_def)
  moreover have "fe_conf (env\<lparr>fe_shell := x\<rparr>) = fe_conf env" "fe_freopen (env\<lparr>fe_shell := x\<rparr>) = fe_freopen env"
    "fe_mutex (env\<lparr>fe_shell := x\<rparr>) = fe_mutex env" for x by simp_all
  ultimately show ?thesis by (simp only: fw_start_def)
qed

theorem iptables_failures_ignored_witness:
  "\<exists>r. fw_start (sample_env (\<lambda>_ _. 256)) (fw_attrs_init, sample_state) [] = Ret (FW_SERVICE_NORMAL_CODE, r)"
proof -
  have "fw_start (sample_env (\<lambda>_ _. 256)) (fw_attrs_init, sample_state) []
      = fw_start (sample_env (\<lambda>_ _. 0)) (fw_attrs_init, sample_state) []"
    using iptables_failures_ignored [of "\<lambda>_ _. 256" "sample_env (\<lambda>_ _. 0)" "(fw_attrs_init, sample_state)" "[]"]
    by (simp add: sample_env_def)
  then show ?thesis using sample_start [of "\<lambda>_ _. 0" "[]"] by auto
qed

text \<open>
  Claim C35: capturing on all devices.  With fewer than 256 devices the first one is skipped,
  each other one gets a thread, and the last thread has an empty name.  With 256 devices the
  counter is 0 and the service finds none; with more it writes past the array of arguments
  (unless their number is again a multiple of 256).
\<close>

theorem all_devices_off_by_one:
  assumes "fe_devices env = Some alldevs" and "alldevs \<noteq> []"
    and "\<forall>d \<in> set alldevs. length d \<le> FW_DEVICE_MAX_LEN"
  shows "fw_find_devices env FW_ATTR_IFACE_ALL = (of_nat (length alldevs), alldevs) \<and>
    (if length alldevs < 256
     then fw_thread_args (of_nat (length alldevs)) alldevs FW_ATTR_IFACE_ALL
            = Ret (map (padded FW_DEVICE_MAX_LEN) (tl alldevs) @ [no_name])
     else if 256 dvd length alldevs then (of_nat (length alldevs) :: u8) = 0
     else fw_thread_args (of_nat (length alldevs)) alldevs FW_ATTR_IFACE_ALL = Fault Oob_Write)"
proof -
  obtain d ds where ds: "alldevs = d # ds" using assms(2) by (cases alldevs) auto
  let ?n = "of_nat (length alldevs) :: u8"
  have n: "unat ?n = length alldevs mod 256" by (simp add: unat_of_nat)
  have args: "fw_thread_args ?n alldevs FW_ATTR_IFACE_ALL = device_loop (d # ds) 0 ([] @ replicate (unat ?n) no_name)"
    by (simp add: fw_thread_args_def ds)
  have "device_loop (d # ds) 0 ([] @ replicate (unat ?n) no_name) = Ret (map (padded FW_DEVICE_MAX_LEN) ds @ [no_name])"
    if "length alldevs < 256"
  proof -
    have k: "unat ?n = length ds + 1" unfolding n using that by (simp add: ds)
    show ?thesis unfolding k using that device_loop_fits [of "[]" 0 ds d 1] assms(3) by (simp add: ds)
  qed
  moreover have "device_loop (d # ds) 0 ([] @ replicate (unat ?n) no_name) = Fault Oob_Write"
    if "\<not> length alldevs < 256"
  proof -
    have lt: "length alldevs mod 256 < 256" by simp
    have "length alldevs mod 256 < length ds"
    proof (cases "length ds = 255")
      case True
      then show ?thesis by (simp add: ds)
    next
      case False
      with that have "256 \<le> length ds" by (simp add: ds)
      with lt show ?thesis by linarith
    qed
    moreover have "unat (0 :: u8) + unat ?n \<le> 255" using lt by (simp only: n unsigned_0)
    ultimately have "unat (0 :: u8) + unat ?n \<le> 255" "unat ?n < length ds" unfolding n by simp_all
    then show ?thesis using assms(3) by (intro device_loop_overruns) (simp_all add: ds)
  qed
  moreover have "?n = 0" if "256 dvd length alldevs"
    using that n by (simp add: unat_eq_zero [symmetric] dvd_eq_mod_eq_0)
  ultimately show ?thesis
    unfolding args using assms(1) ds by (simp add: fw_find_devices_def del: of_nat_Suc length_Cons)
qed

theorem all_devices_off_by_one_witness:
  "fw_thread_args 2 [''lo'', ''eth0''] FW_ATTR_IFACE_ALL = Ret [padded FW_DEVICE_MAX_LEN ''eth0'', no_name]"
  using all_devices_off_by_one [of "(sample_env (\<lambda>_ _. 0))\<lparr>fe_devices := Some [''lo'', ''eth0'']\<rparr>" "[''lo'', ''eth0'']"]
  by (simp add: FW_DEVICE_MAX_LEN_def)

end
