(* ===== verification/Firewall_Thread.thy ===== *)
theory Firewall_Thread
  imports Packet_Filter
begin

text \<open>
  The capture thread of \<open>services/firewall_service/firewall_service_main.c\<close>: the set-up of the
  capture in \<open>fw_thread_start\<close> and the loop of \<open>pcap_loop\<close> around the packet handler.  The calls
  into libpcap are arguments.  \<open>pthread_cancel(pthread_self())\<close> only asks for the cancellation;
  whether the next call into a library acts on it is an argument too.
\<close>

text \<open>\<open>DLT_EN10MB\<close> of libpcap.\<close>

definition DLT_EN10MB :: int where "DLT_EN10MB = 1"

section \<open>The capture loop\<close>

text \<open>What happens while the loop runs: a packet that passes the filter, or SIGINT.\<close>

datatype wire_item = Wire_Packet string | Wire_Sigint

text \<open>
  \<open>n\<close> is the number of packets still to be handled (\<^term>\<open>None\<close>: no limit); the first result
  says whether \<open>pcap_loop\<close> returned, or else the handler ended the thread.
\<close>

fun fw_pcap_loop ::
  "nat option \<Rightarrow> wire_item list \<Rightarrow> fw_state \<Rightarrow> (bool \<times> packet_end list \<times> fw_state) outcome" where
  "fw_pcap_loop n [] s = Ret (True, [], s)"
| "fw_pcap_loop n (w # ws) s =
     (if n = Some 0 then Ret (True, [], s)
      else
        (case w of
           Wire_Sigint \<Rightarrow> fw_pcap_loop n ws (fw_signal_handler s)
         | Wire_Packet p \<Rightarrow>
             obind (fw_got_packet False p s) (\<lambda>(e, s1).
               if e = Thread_Exit then Ret (False, [e], s1)
               else obind (fw_pcap_loop (map_option (\<lambda>k. k - 1) n) ws s1)
                      (\<lambda>(returned, es, s2). Ret (returned, e # es, s2)))))"

text \<open>\<open>pcap_loop\<close> takes a count that is not positive as no limit.\<close>

definition packet_limit :: "int \<Rightarrow> nat option" where
  "packet_limit cnt = (if cnt > 0 then Some (nat cnt) else None)"

section \<open>The thread\<close>

text \<open>
  \<open>pe_setcancel\<close>: the two results of \<open>pthread_setcancelstate\<close>; \<open>pe_cancel_at k\<close>: a pending
  cancellation is acted on in the \<open>k\<close>th call (or the message before it), the calls being
  \<open>pcap_open_live\<close>, \<open>pcap_datalink\<close>, \<open>pcap_compile\<close>, \<open>pcap_setfilter\<close>.
\<close>

record pcap_env =
  pe_setcancel :: "nat \<Rightarrow> int"
  pe_lookupnet :: "string \<Rightarrow> int"
  pe_open :: "string \<Rightarrow> bool"
  pe_datalink :: int
  pe_compile :: "string \<Rightarrow> int"
  pe_setfilter :: int
  pe_cancel_at :: "nat \<Rightarrow> bool"
  pe_items :: "wire_item list"

datatype thread_end = Thread_Exited | Thread_Cancelled | Capture_Completed "packet_end list"

definition fw_thread_start ::
  "pcap_env \<Rightarrow> string \<Rightarrow> fw_config_attrs \<Rightarrow> fw_state \<Rightarrow> (thread_end \<times> fw_state) outcome" where
  "fw_thread_start env device_name attrs s =
     (if pe_setcancel env 0 \<noteq> FW_SERVICE_NORMAL_CODE then Ret (Thread_Exited, s)
      else
        let no_net = (pe_lookupnet env device_name = FW_SERVICE_ERROR_CODE) in
        if no_net \<and> pe_cancel_at env 0 then Ret (Thread_Cancelled, s)
        else if no_net \<and> pe_cancel_at env 1 then Ret (Thread_Cancelled, s)
        else if \<not> pe_open env device_name then Fault Null_Deref
        else
          let pending = (no_net \<or> pe_datalink env \<noteq> DLT_EN10MB) in
          if pending \<and> pe_cancel_at env 2 then Ret (Thread_Cancelled, s)
          else if no_net then Fault Uninit_Read
          else
            obind (oget Oob_Read (cstring (fw_attr_filter attrs))) (\<lambda>filter_exp.
              let no_filter = (pe_compile env filter_exp = FW_SERVICE_ERROR_CODE) in
              if (pending \<or> no_filter) \<and> pe_cancel_at env 3 then Ret (Thread_Cancelled, s)
              else if no_filter then Fault Uninit_Read
              else if (pending \<or> pe_setfilter env = -1) \<and> pe_cancel_at env 4 then Ret (Thread_Cancelled, s)
              else if pe_setcancel env 1 \<noteq> 0 then Ret (Thread_Exited, s)
              else
                obind (fw_pcap_loop (packet_limit (fw_attr_pcts_num attrs)) (pe_items env) s)
                  (\<lambda>(returned, es, s1). Ret (if returned then Capture_Completed es else Thread_Exited, s1))))"

section \<open>The loop on safe packets\<close>

lemma tcp_no_exit: "ensures (\<lambda>e. e \<noteq> Thread_Exit) (fw_got_tcp p n)"
  unfolding fw_got_tcp_def Let_def by (intro ensures_rules) simp_all

lemma running_no_exit:
  assumes "fw_got_packet False p s = Ret (e, s1)" and "fw_keep_running s"
  shows "e \<noteq> Thread_Exit"
proof -
  have tcp: "ensures (\<lambda>r. fst r \<noteq> Thread_Exit) (obind (fw_got_tcp p n) (\<lambda>e. Ret (e, t)))" for n t
    using tcp_no_exit [of p n] by (auto simp: ensures_def c_simps)
  have "ensures (\<lambda>r. fst r \<noteq> Thread_Exit) (fw_got_packet False p s)"
    unfolding fw_got_packet_def Let_def
    by (intro ensures_if ensures_obind tcp) (simp_all add: assms(2) fw_get_keep_running_def ensures_Ret)
  from ensuresD [OF this assms(1)] show ?thesis by simp
qed

lemma stopped_exits: "\<not> fw_keep_running s \<Longrightarrow> fw_got_packet False p s = Ret (Thread_Exit, s)"
  by (simp add: fw_got_packet_def fw_get_keep_running_def)

text \<open>After the signal the next packet ends the thread, and is not counted.\<close>

lemma fw_pcap_loop_stopped:
  "\<not> fw_keep_running s \<Longrightarrow> \<exists>es. fw_pcap_loop n (map Wire_Packet qs) s = Ret (n = Some 0 \<or> qs = [], es, s)"
  by (cases qs) (auto simp: stopped_exits)

text \<open>How many of the packets are handled.\<close>

definition handled :: "nat option \<Rightarrow> string list \<Rightarrow> string list" where
  "handled n ps = (case n of None \<Rightarrow> ps | Some k \<Rightarrow> take k ps)"

definition limit_reached :: "nat option \<Rightarrow> string list \<Rightarrow> bool" where
  "limit_reached n ps \<longleftrightarrow> (\<exists>k. n = Some k \<and> k \<le> length ps)"

lemma limit_step:
  assumes "n \<noteq> Some 0"
  shows "limit_reached (map_option (\<lambda>k. k - 1) n) ps \<longleftrightarrow> limit_reached n (p # ps)"
    and "handled n (p # ps) = p # handled (map_option (\<lambda>k. k - 1) n) ps"
proof -
  have "n = None \<or> (\<exists>j. n = Some (Suc j))" using assms by (cases n) (auto simp: gr0_conv_Suc)
  then show "limit_reached (map_option (\<lambda>k. k - 1) n) ps \<longleftrightarrow> limit_reached n (p # ps)"
    and "handled n (p # ps) = p # handled (map_option (\<lambda>k. k - 1) n) ps"
    by (auto simp: limit_reached_def handled_def)
qed

lemma fw_pcap_loop_run:
  assumes "\<forall>p \<in> set ps. packet_safe p" and "fw_keep_running s"
  shows "\<exists>es s'. fw_pcap_loop n (map Wire_Packet ps @ Wire_Sigint # map Wire_Packet qs) s
       = Ret (limit_reached n ps \<or> qs = [], es, s')
     \<and> fw_count s' = fw_count s + of_nat (length (handled n ps))
     \<and> fw_untrusted_counter s' = fw_untrusted_counter s + of_nat (length (filter (counted s) (handled n ps)))"
  using assms
proof (induction ps arbitrary: n s)
  case Nil
  show ?case
  proof (cases "n = Some 0")
    case True
    then show ?thesis by (simp add: limit_reached_def handled_def)
  next
    case False
    have "\<not> fw_keep_running (fw_signal_handler s)" by (simp add: fw_signal_handler_def)
    from fw_pcap_loop_stopped [OF this, of n qs] False show ?thesis
      by (auto simp: limit_reached_def handled_def fw_signal_handler_def split: option.splits)
  qed
next
  case (Cons p ps)
  show ?case
  proof (cases "n = Some 0")
    case True
    then show ?thesis by (simp add: limit_reached_def handled_def)
  next
    case False
    obtain e s1 where p: "fw_got_packet False p s = Ret (e, s1)"
      using Cons.prems fw_got_packet_outcome [of s p] by auto
    have e: "e \<noteq> Thread_Exit" using running_no_exit [OF p Cons.prems(2)] .
    note s1 = fw_got_packet_state [OF p Cons.prems(2)]
    have run: "fw_keep_running s1" using s1 Cons.prems(2) by simp
    let ?n = "map_option (\<lambda>k. k - 1) n"
    note step = limit_step [OF False, where ps = ps and p = p]
    have safe: "\<forall>q \<in> set ps. packet_safe q" using Cons.prems(1) by simp
    obtain es s' where IH: "fw_pcap_loop ?n (map Wire_Packet ps @ Wire_Sigint # map Wire_Packet qs) s1
       = Ret (limit_reached n (p # ps) \<or> qs = [], es, s')"
      "fw_count s' = fw_count s1 + of_nat (length (handled ?n ps))"
      "fw_untrusted_counter s' = fw_untrusted_counter s1 + of_nat (length (filter (counted s1) (handled ?n ps)))"
      using Cons.IH [OF safe run, of ?n] unfolding step(1) by blast
    have "fw_pcap_loop n (map Wire_Packet (p # ps) @ Wire_Sigint # map Wire_Packet qs) s
        = Ret (limit_reached n (p # ps) \<or> qs = [], e # es, s')"
      using False e p IH(1) by simp
    with IH(2,3) show ?thesis
      by (intro exI [of _ "e # es"] exI [of _ s']) (simp add: s1 step(2))
  qed
qed

section \<open>Properties\<close>

text \<open>A device whose set-up succeeds.\<close>

definition setup_ok :: "pcap_env \<Rightarrow> string \<Rightarrow> fw_config_attrs \<Rightarrow> bool" where
  "setup_ok env device_name attrs \<longleftrightarrow>
     pe_setcancel env 0 = 0 \<and> pe_setcancel env 1 = 0 \<and> pe_lookupnet env device_name \<noteq> -1 \<and> pe_open env device_name \<and>
     pe_datalink env = DLT_EN10MB \<and> pe_setfilter env \<noteq> -1 \<and>
     (\<exists>f. cstring (fw_attr_filter attrs) = Some f \<and> pe_compile env f \<noteq> -1)"

lemma fw_thread_captures:
  "setup_ok env device_name attrs \<Longrightarrow> fw_thread_start env device_name attrs s
     = obind (fw_pcap_loop (packet_limit (fw_attr_pcts_num attrs)) (pe_items env) s)
         (\<lambda>(returned, es, s1). Ret (if returned then Capture_Completed es else Thread_Exited, s1))"
  by (auto simp: setup_ok_def fw_thread_start_def FW_SERVICE_NORMAL_CODE_def FW_SERVICE_ERROR_CODE_def)

text \<open>
  Claim C10: what a capture thread counts.  On a device whose set-up succeeds, with safe packets
  before SIGINT, the thread ends without a fault; it counts the packets before the signal, at
  most as many as the configuration asks for, and of these the ones from the untrusted network;
  a packet after the signal is never counted but ends the thread, and otherwise the capture
  completes.
\<close>

theorem thread_counts_until_sigint:
  assumes "setup_ok env device_name attrs" and "\<forall>p \<in> set ps. packet_safe p" and "fw_keep_running s"
    and "pe_items env = map Wire_Packet ps @ Wire_Sigint # map Wire_Packet qs"
  shows "\<exists>e s'. fw_thread_start env device_name attrs s = Ret (e, s')
     \<and> fw_count s' = fw_count s + of_nat (length (handled (packet_limit (fw_attr_pcts_num attrs)) ps))
     \<and> fw_untrusted_counter s' = fw_untrusted_counter s
         + of_nat (length (filter (counted s) (handled (packet_limit (fw_attr_pcts_num attrs)) ps)))
     \<and> (e = Thread_Exited \<longleftrightarrow> \<not> limit_reached (packet_limit (fw_attr_pcts_num attrs)) ps \<and> qs \<noteq> [])"
  using fw_pcap_loop_run [OF assms(2,3), of "packet_limit (fw_attr_pcts_num attrs)" qs]
  by (auto simp: fw_thread_captures [OF assms(1)] assms(4))

definition sample_pcap :: "wire_item list \<Rightarrow> pcap_env" where
  "sample_pcap ws = \<lparr>pe_setcancel = (\<lambda>_. 0), pe_lookupnet = (\<lambda>_. 0), pe_open = (\<lambda>d. d = ''eth0''), pe_datalink = 1,
     pe_compile = (\<lambda>_. 0), pe_setfilter = 0, pe_cancel_at = (\<lambda>_. False), pe_items = ws\<rparr>"

lemma sample_setup: "setup_ok (sample_pcap ws) ''eth0'' fw_attrs_init"
  by (simp add: setup_ok_def sample_pcap_def DLT_EN10MB_def fw_attrs_init_def FW_MIN_BUF_SIZE_def)

text \<open>Two UDP packets, the signal, and one more packet.\<close>

theorem thread_counts_until_sigint_witness:
  "\<exists>s'. fw_thread_start (sample_pcap [Wire_Packet (sample_packet 1 17 20 []), Wire_Packet (sample_packet 2 17 20 []),
       Wire_Sigint, Wire_Packet (sample_packet 3 17 20 [])]) ''eth0'' fw_attrs_init sample_state = Ret (Thread_Exited, s')
     \<and> fw_count s' = 2"
proof -
  let ?ps = "[sample_packet 1 17 20 [], sample_packet 2 17 20 []]" and ?qs = "[sample_packet 3 17 20 []]"
  let ?env = "sample_pcap (map Wire_Packet ?ps @ Wire_Sigint # map Wire_Packet ?qs)"
  have udp: "packet_safe (sample_packet n 17 20 [])" for n
    using sample_packet_fields(3) [of n 17 20 "[]"]
    by (simp add: packet_safe_def sample_packet_fields IPPROTO_TCP_def SIZE_ETHERNET_def)
  have lim: "packet_limit (fw_attr_pcts_num fw_attrs_init) = None" by (simp add: packet_limit_def fw_attrs_init_def)
  have run: "fw_keep_running sample_state" and start: "fw_count sample_state = 0" by (simp_all add: sample_state_def)
  have items: "pe_items ?env = map Wire_Packet ?ps @ Wire_Sigint # map Wire_Packet ?qs" by (simp add: sample_pcap_def)
  have safe: "\<forall>p \<in> set ?ps. packet_safe p" using udp by simp
  from thread_counts_until_sigint [OF sample_setup safe run items] obtain e s' where
    "fw_thread_start ?env ''eth0'' fw_attrs_init sample_state = Ret (e, s')" "fw_count s' = 2" "e = Thread_Exited"
    by (auto simp: lim start handled_def limit_reached_def)
  then show ?thesis by simp
qed



end
