(* ===== verification/Service_Manager.thy ===== *)
theory Service_Manager
  imports Helpers_Common
begin

text \<open>
  \<open>services/service_manager_main.c\<close>: the manager.  It accepts connections, forks a child for
  each, and that child's child answers the greetings it reads.  The message lives in a block of
  520 bytes; one \<open>read\<close> overwrites as many bytes at its front as it delivers.  What the sockets
  and \<open>fork\<close> answer is an argument.
\<close>

definition MGR_SERVICE_ERROR_CODE :: int where "MGR_SERVICE_ERROR_CODE = -1"
definition MGR_SERVICE_NORMAL_CODE :: int where "MGR_SERVICE_NORMAL_CODE = 0"
definition MGR_SERVICE_SOCKET_CREATION_EXIT :: int where "MGR_SERVICE_SOCKET_CREATION_EXIT = 1"

lemmas mgr_codes = MGR_SERVICE_ERROR_CODE_def MGR_SERVICE_NORMAL_CODE_def MGR_SERVICE_SOCKET_CREATION_EXIT_def

text \<open>
  What a process did with its descriptors, and how it goes on: the descriptors it closed, in
  order, and the outcome.  The error handlers close what they are given and end the process.
\<close>

type_synonym 'a ending = "int list \<times> 'a outcome"

section \<open>The manager\<close>

record mgr_service_process_args =
  ma_sockfd :: int
  ma_newsockfd :: int

definition service_err_handler :: "int option \<Rightarrow> mgr_service_process_args option \<Rightarrow> unit ending" where
  "service_err_handler data service_process_args =
     ((case data of None \<Rightarrow> [] | Some fd \<Rightarrow> [fd])
        @ (case service_process_args of
             None \<Rightarrow> []
           | Some handler_data \<Rightarrow> [ma_sockfd handler_data, ma_newsockfd handler_data]),
      Exit MGR_SERVICE_SOCKET_CREATION_EXIT)"

text \<open>\<open>read(fd, mem, sizeof(mem))\<close> that delivered the bytes \<open>r\<close>.\<close>

definition read_into :: "string \<Rightarrow> string \<Rightarrow> string" where
  "read_into r mem = take (length mem) r @ drop (length r) mem"

text \<open>
  The loop of the process that serves one connection.  \<open>reads\<close> are the chunks the reads
  deliver until one returns nothing; \<open>wr k\<close> says whether the \<open>k\<close>th write succeeds;
  \<open>message\<close> is the member of \<open>args\<close> of that name.  The result is what was sent, and the end
  of the process.
\<close>

fun message_loop ::
  "mgr_service_process_args \<Rightarrow> (nat \<Rightarrow> bool) \<Rightarrow> string \<Rightarrow> string list \<Rightarrow> string list
     \<Rightarrow> string list \<times> unit ending" where
  "message_loop args wr message [] sent = (sent, ([], Exit MGR_SERVICE_NORMAL_CODE))"
| "message_loop args wr message (r # reads) sent =
     (let message = read_into r message in
      if process_id_code backup_service_process_type = msg_process_id message
           \<and> backup_signal_code SIGNAL_BACKUP_INIT = msg_signal message then
        (let message = msg_set_signal (backup_signal_code SIGNAL_MAKE_BACKUP_ACCEPT) message in
         if wr (length sent) then message_loop args wr message reads (sent @ [message])
         else (sent, service_err_handler None (Some args)))
      else if process_id_code firewall_service_process_type = msg_process_id message
           \<and> firewall_signal_code SIGNAL_FIREWALL_INIT = msg_signal message then
        (let message = msg_set_signal (firewall_signal_code SIGNAL_MAKE_FIREWALL_ACCEPT) message in
         if wr (length sent) then message_loop args wr message reads (sent @ [message])
         else (sent, service_err_handler None (Some args)))
      else message_loop args wr message reads sent)"

text \<open>
  The handler, in the process that the results of the two calls of \<open>fork\<close> put us in: only the
  manager itself returns.
\<close>

definition service_child_process_handler ::
  "mgr_service_process_args \<Rightarrow> int \<Rightarrow> int \<Rightarrow> int \<Rightarrow> (nat \<Rightarrow> bool) \<Rightarrow> string \<Rightarrow> string list
     \<Rightarrow> string list \<times> unit ending" where
  "service_child_process_handler args pid cchild waited wr message reads =
     (if pid = MGR_SERVICE_ERROR_CODE then ([], service_err_handler None (Some args))
      else if pid = MGR_SERVICE_NORMAL_CODE then
        (if cchild = MGR_SERVICE_ERROR_CODE then ([], service_err_handler None (Some args))
         else if cchild = MGR_SERVICE_NORMAL_CODE then message_loop args wr message reads []
         else if waited = MGR_SERVICE_ERROR_CODE then ([], service_err_handler None None)
         else ([], ([], Exit MGR_SERVICE_NORMAL_CODE)))
      else ([], ([], Ret ())))"

text \<open>
  The accept loop, on what \<open>accept\<close> and the first \<open>fork\<close> answer, up to the end of the list:
  the children that were started and not waited for, the descriptors closed, and \<^term>\<open>Ret\<close>
  while the manager runs.
\<close>

fun accept_loop :: "int \<Rightarrow> (int \<times> int) list \<Rightarrow> int list \<Rightarrow> int list \<Rightarrow> int list \<times> unit ending" where
  "accept_loop sockfd [] children closed = (children, (closed, Ret ()))"
| "accept_loop sockfd ((newsockfd, pid) # cs) children closed =
     (if newsockfd = MGR_SERVICE_ERROR_CODE
      then (children, apfst ((@) closed) (service_err_handler (Some sockfd) None))
      else (let args = \<lparr>ma_sockfd = sockfd, ma_newsockfd = newsockfd\<rparr> in
            case snd (service_child_process_handler args pid 1 0 (\<lambda>_. True) [] []) of
              (cl, Ret _) \<Rightarrow> accept_loop sockfd cs (children @ [pid]) (closed @ cl @ [newsockfd])
            | (cl, Exit c) \<Rightarrow> (children, (closed @ cl, Exit c))
            | (cl, Fault f) \<Rightarrow> (children, (closed @ cl, Fault f))))"

definition manager_main :: "int \<Rightarrow> int \<Rightarrow> int \<Rightarrow> (int \<times> int) list \<Rightarrow> int list \<times> unit ending" where
  "manager_main sockfd bound listening cs =
     (if sockfd < MGR_SERVICE_NORMAL_CODE then ([], service_err_handler None None)
      else if bound = MGR_SERVICE_ERROR_CODE then ([], service_err_handler (Some sockfd) None)
      else if listening = MGR_SERVICE_ERROR_CODE then ([], service_err_handler (Some sockfd) None)
      else accept_loop sockfd cs [] [])"

section \<open>What the manager answers\<close>

text \<open>The answer to a whole message, if any.\<close>

definition reply :: "service_message \<Rightarrow> service_message option" where
  "reply m = (if process_id m \<in> {0, 1} \<and> signal m = 0 then Some (m\<lparr>signal := 2\<rparr>) else None)"

lemma read_into_whole [simp]: "length r = length mem \<Longrightarrow> read_into r mem = r"
  by (simp add: read_into_def)

lemma read_into_length [simp]: "length (read_into r mem) = length mem"
  by (simp add: read_into_def)

lemma msg_set_signal_length [simp]: "length (msg_set_signal s mem) = length mem"
  by (simp add: msg_set_signal_def)

lemma msg_signal_set [simp]: "4 < length mem \<Longrightarrow> msg_signal (msg_set_signal s mem) = s"
  using unat_u8_less [of s] by (simp add: msg_signal_def msg_set_signal_def byte_def)

lemma message_wf_signal [simp]: "message_wf (m\<lparr>signal := s\<rparr>) = message_wf m"
  by (simp add: message_wf_def)

text \<open>Both branches of the loop answer in the same way.\<close>

definition is_init :: "string \<Rightarrow> bool" where
  "is_init mem \<longleftrightarrow> msg_process_id mem \<in> {0, 1} \<and> msg_signal mem = 0"

lemma message_loop_Cons:
  "message_loop args wr mem (r # reads) sent =
     (if \<not> is_init (read_into r mem) then message_loop args wr (read_into r mem) reads sent
      else if wr (length sent)
      then message_loop args wr (msg_set_signal 2 (read_into r mem)) reads (sent @ [msg_set_signal 2 (read_into r mem)])
      else (sent, service_err_handler None (Some args)))"
  by (auto simp: is_init_def Let_def)

declare message_loop.simps(2) [simp del]

lemma is_init_bytes [simp]: "is_init (message_bytes m) \<longleftrightarrow> process_id m \<in> {0, 1} \<and> signal m = 0"
  by (simp add: is_init_def)

lemma message_loop_whole:
  assumes "\<forall>m \<in> set ms. message_wf m" and "length mem = message_sizeof"
  shows "message_loop args (\<lambda>_. True) mem (map message_bytes ms) sent
           = (sent @ map message_bytes (List.map_filter reply ms), ([], Exit MGR_SERVICE_NORMAL_CODE))"
  using assms
proof (induction ms arbitrary: mem sent)
  case Nil
  then show ?case by (simp add: List.map_filter_simps)
next
  case (Cons m ms)
  have whole: "read_into (message_bytes m) mem = message_bytes m"
    using Cons.prems by (simp add: message_bytes_length)
  have "length (message_bytes m) = message_sizeof" "length (message_bytes (m\<lparr>signal := 2\<rparr>)) = message_sizeof"
    using Cons.prems(1) by (simp_all add: message_bytes_length)
  with Cons.IH Cons.prems(1) show ?case
    by (simp add: message_loop_Cons whole reply_def List.map_filter_simps)
qed

text \<open>Whatever is read, in pieces or not: everything sent is a whole message with \<open>ACCEPT\<close>.\<close>

definition accept_message :: "string \<Rightarrow> bool" where
  "accept_message s \<longleftrightarrow> length s = message_sizeof \<and> msg_signal s = 2"

lemma message_loop_accepts:
  assumes "length mem = message_sizeof" and "\<forall>s \<in> set sent. accept_message s"
  shows "\<forall>s \<in> set (fst (message_loop args wr mem reads sent)). accept_message s"
  using assms
proof (induction reads arbitrary: mem sent)
  case Nil
  then show ?case by simp
next
  case (Cons r reads)
  have "accept_message (msg_set_signal 2 (read_into r mem))"
    using Cons.prems(1) by (simp add: accept_message_def message_sizeof_def)
  with Cons.prems have "\<forall>s \<in> set (sent @ [msg_set_signal 2 (read_into r mem)]). accept_message s" by auto
  from Cons.IH [OF _ this, of "msg_set_signal 2 (read_into r mem)"] Cons.IH [OF _ Cons.prems(2), of "read_into r mem"]
  show ?case using Cons.prems unfolding message_loop_Cons by (auto simp del: set_append)
qed

lemma message_loop_count: "length (fst (message_loop args wr mem reads sent)) \<le> length sent + length reads"
proof (induction reads arbitrary: mem sent)
  case Nil
  then show ?case by simp
next
  case (Cons r reads)
  show ?case
    using Cons [of "read_into r mem" sent] Cons [of "msg_set_signal 2 (read_into r mem)" "sent @ [msg_set_signal 2 (read_into r mem)]"]
    by (simp add: message_loop_Cons)
qed

lemma message_loop_writes:
  assumes "\<forall>k < length sent. wr k"
  shows "(\<forall>k < length (fst (message_loop args wr mem reads sent)). wr k)
     \<and> (snd (message_loop args wr mem reads sent) = ([], Exit 0)
        \<or> \<not> wr (length (fst (message_loop args wr mem reads sent)))
           \<and> snd (message_loop args wr mem reads sent) = ([ma_sockfd args, ma_newsockfd args], Exit 1))"
  using assms
proof (induction reads arbitrary: mem sent)
  case Nil
  then show ?case by (simp add: MGR_SERVICE_NORMAL_CODE_def)
next
  case (Cons r reads)
  show ?case
  proof (cases "is_init (read_into r mem) \<and> wr (length sent)")
    case True
    then have "\<forall>k < length (sent @ [msg_set_signal 2 (read_into r mem)]). wr k"
      using Cons.prems by (auto simp: less_Suc_eq)
    from Cons.IH [OF this, of "msg_set_signal 2 (read_into r mem)"] True show ?thesis
      by (simp add: message_loop_Cons del: set_append)
  next
    case False
    with Cons.IH [OF Cons.prems, of "read_into r mem"] Cons.prems show ?thesis
      by (auto simp: message_loop_Cons service_err_handler_def mgr_codes)
  qed
qed

section \<open>Properties\<close>

text \<open>
  Claim C40: the life of the manager.  While every \<open>accept\<close> and \<open>fork\<close> succeeds it serves
  the connections one after the other, each by a child of its own that it never waits for,
  closes each connection once and keeps running.  The first failure of \<open>accept\<close> or \<open>fork\<close>
  ends it with 1, whatever follows, the listening socket (and the connection) closed.
\<close>

theorem manager_life:
  assumes "0 \<le> sockfd" and "bound \<noteq> -1" and "listening \<noteq> -1"
    and "\<forall>c \<in> set cs. fst c \<noteq> -1 \<and> 0 < snd c"
  shows "manager_main sockfd bound listening cs = (map snd cs, (map fst cs, Ret ()))
     \<and> (\<forall>fd pid more. fd = -1 \<or> pid = -1 \<longrightarrow>
           manager_main sockfd bound listening (cs @ (fd, pid) # more)
             = (map snd cs, (map fst cs @ (if fd = -1 then [sockfd] else [sockfd, fd]), Exit 1)))"
proof -
  have "accept_loop sockfd (cs @ more) ch cl = accept_loop sockfd more (ch @ map snd cs) (cl @ map fst cs)" for ch cl more
    using assms(4)
    by (induction cs arbitrary: ch cl) (auto simp: service_child_process_handler_def mgr_codes)
  from this [of "[]" "[]" "[]"] this [of _ "[]" "[]"] show ?thesis
    using assms(1-3)
    by (auto simp: manager_main_def service_child_process_handler_def service_err_handler_def mgr_codes)
qed

theorem manager_life_witness:
  "manager_main 3 0 0 [(4, 100), (4, 101)] = ([100, 101], ([4, 4], Ret ()))
   \<and> manager_main 3 0 0 [(4, 100), (4, 101), (4, -1), (4, 102)] = ([100, 101], ([4, 4, 3, 4], Exit 1))"
  using manager_life [of 3 0 0 "[(4, 100), (4, 101)]"] by simp

end
