(* ===== verification/Backup_Config.thy ===== *)
theory Backup_Config
  imports Config_Parser Logger
begin

text \<open>
  \<open>backup_parse_and_serialize_config\<close> of \<open>services/backup_service/backup_service_main.c\<close> and
  the static path of the backup directory with its setter and getter
  (\<open>helpers_backup_common.c\<close>).  \<open>stat\<close> is an argument: \<^term>\<open>None\<close> when the call fails (its
  result is not tested, so the mode is read uninitialised), otherwise whether the path is a
  directory.
\<close>

definition HELPERS_BUF_SIZE :: nat where "HELPERS_BUF_SIZE = 1024"
definition HELPERS_AVER_BUFFER_SIZE :: nat where "HELPERS_AVER_BUFFER_SIZE = 2048"
definition PATH_TO_DIR_DEFINE :: string where "PATH_TO_DIR_DEFINE = ''path_to_dir''"
definition PATH_TO_BACKUP_DEFINE :: string where "PATH_TO_BACKUP_DEFINE = ''path_to_backup''"
definition BACKUP_PATH_TO_CONFIG :: string where
  "BACKUP_PATH_TO_CONFIG = ''/services/backup_service/config.conf''"
definition NORMAL_EXIT :: int where "NORMAL_EXIT = 0"
definition INVALID_EXIT :: int where "INVALID_EXIT = -1"

lemmas backup_keys = PATH_TO_DIR_DEFINE_def PATH_TO_BACKUP_DEFINE_def PATH_TO_LOGGER_DEFINE_def
lemmas backup_sizes = HELPERS_BUF_SIZE_def HELPERS_AVER_BUFFER_SIZE_def LOGGER_PATH_TO_LOG_LEN_def

section \<open>The path of the backup directory\<close>

definition path_to_backup_init :: string where
  "path_to_backup_init = replicate HELPERS_AVER_BUFFER_SIZE NUL"

definition backup_set_path_to_backup :: "string option \<Rightarrow> string \<Rightarrow> string outcome" where
  "backup_set_path_to_backup path path_to_backup =
     (case path of None \<Rightarrow> Ret path_to_backup
      | Some v \<Rightarrow> oget Oob_Write (strncpy_len (strinit path_to_backup) v))"

definition backup_get_path_to_backup :: "string \<Rightarrow> string outcome" where
  "backup_get_path_to_backup path_to_backup = oget Oob_Read (cstring path_to_backup)"

interpretation backup_path: path_buffer backup_set_path_to_backup HELPERS_AVER_BUFFER_SIZE
  by unfold_locales (simp add: backup_set_path_to_backup_def set_path_def)

section \<open>The configuration\<close>

text \<open>
  The three buffers the configuration fills: \<open>path_to_dir_buffer\<close> of \<open>start\<close> and the two
  static ones.
\<close>

record backup_conf =
  bc_path_to_dir :: string
  bc_path_to_backup :: string
  bc_path_to_log :: string

definition backup_conf_init :: backup_conf where
  "backup_conf_init =
     \<lparr>bc_path_to_dir = replicate HELPERS_BUF_SIZE NUL, bc_path_to_backup = path_to_backup_init,
      bc_path_to_log = path_to_log_init\<rparr>"

text \<open>What \<open>arg->path_to_dir\<close> points to.\<close>

datatype dir_ref = No_Dir | Dir_Buffer | Item_Value addr

definition backup_handle_entry ::
  "(string \<Rightarrow> bool option) \<Rightarrow> string \<Rightarrow> string \<Rightarrow> backup_conf \<Rightarrow> backup_conf key_step outcome" where
  "backup_handle_entry stat before_value val c =
     (if before_value = PATH_TO_DIR_DEFINE then
        (case stat val of
           None \<Rightarrow> Fault Uninit_Read
         | Some is_dir \<Rightarrow>
             if \<not> is_dir then Ret Give_Up
             else obind (oget Oob_Write (strncpy_len (bc_path_to_dir c) val))
                    (\<lambda>b. Ret (Continue (c\<lparr>bc_path_to_dir := b\<rparr>))))
      else if before_value = PATH_TO_BACKUP_DEFINE then
        obind (backup_set_path_to_backup (Some val) (bc_path_to_backup c))
          (\<lambda>b. Ret (Continue (c\<lparr>bc_path_to_backup := b\<rparr>)))
      else if before_value = PATH_TO_LOGGER_DEFINE then
        obind (logger_set_path_to_log (Some val) (bc_path_to_log c))
          (\<lambda>b. Ret (Continue (c\<lparr>bc_path_to_log := b\<rparr>)))
      else Ret (Break c))"

definition backup_parse_and_serialize_config ::
  "(nat \<Rightarrow> nat) \<Rightarrow> string \<Rightarrow> string option \<Rightarrow> (string \<Rightarrow> string option) \<Rightarrow> (string \<Rightarrow> string option) \<Rightarrow>
     int \<Rightarrow> (nat \<Rightarrow> bool) \<Rightarrow> (string \<Rightarrow> bool option) \<Rightarrow> dir_ref \<times> backup_conf \<Rightarrow>
     (int \<times> dir_ref \<times> backup_conf) outcome" where
  "backup_parse_and_serialize_config cap after getcwd open1 open2 garbage alloc stat s =
     (case s of (arg, c) \<Rightarrow>
        obind (parser_read_conf getcwd open1 open2 garbage alloc BACKUP_PATH_TO_CONFIG) (\<lambda>b.
          case b of None \<Rightarrow> Ret (INVALID_EXIT, arg, c)
          | Some buffer \<Rightarrow>
              obind (conf_loop cap (backup_handle_entry stat) (buffer @ after) 0 True c) (\<lambda>(rc, c').
                if rc = NORMAL_EXIT then Ret (NORMAL_EXIT, Dir_Buffer, c')
                else Ret (INVALID_EXIT, arg, c'))))"

section \<open>The buffers keep their size\<close>

definition backup_conf_wf :: "backup_conf \<Rightarrow> bool" where
  "backup_conf_wf c \<longleftrightarrow>
     length (bc_path_to_dir c) = HELPERS_BUF_SIZE \<and>
     length (bc_path_to_backup c) = HELPERS_AVER_BUFFER_SIZE \<and>
     length (bc_path_to_log c) = LOGGER_PATH_TO_LOG_LEN"

lemma backup_handle_wf:
  "backup_conf_wf c \<Longrightarrow> backup_handle_entry stat k v c = Ret (Continue c') \<Longrightarrow> backup_conf_wf c'"
  "backup_conf_wf c \<Longrightarrow> backup_handle_entry stat k v c = Ret (Break c') \<Longrightarrow> backup_conf_wf c'"
  by (auto simp: backup_handle_entry_def backup_conf_wf_def c_simps dest: strncpy_len_length
      backup_path.setp_cap log_path.setp_cap split: if_splits option.splits)

interpretation backup_conf: conf_consumer "backup_handle_entry stat" backup_conf_wf for stat
  by unfold_locales (auto dest: backup_handle_wf)

lemma backup_parse_is_parse_file:
  "backup_parse_and_serialize_config cap after getcwd open1 open2 garbage alloc stat (arg, c) =
     obind (parse_file cap after (parser_read_conf getcwd open1 open2 garbage alloc BACKUP_PATH_TO_CONFIG)
              (backup_handle_entry stat) INVALID_EXIT c)
       (\<lambda>(rc, c'). if rc = NORMAL_EXIT then Ret (NORMAL_EXIT, Dir_Buffer, c')
                  else Ret (INVALID_EXIT, arg, c'))"
  by (cases "parser_read_conf getcwd open1 open2 garbage alloc BACKUP_PATH_TO_CONFIG")
     (auto simp: backup_parse_and_serialize_config_def parse_file_def NORMAL_EXIT_def INVALID_EXIT_def
        split: option.split)

text \<open>Every return of the parser keeps the sizes, and the argument is set exactly on success.\<close>

lemma backup_parse_wf:
  assumes "backup_conf_wf c"
    and "backup_parse_and_serialize_config cap after getcwd open1 open2 garbage alloc stat (arg, c) = Ret (rc, arg', c')"
  shows "backup_conf_wf c' \<and> (rc = NORMAL_EXIT \<and> arg' = Dir_Buffer \<or> rc = INVALID_EXIT \<and> arg' = arg)"
proof -
  obtain r c2 where "parse_file cap after (parser_read_conf getcwd open1 open2 garbage alloc BACKUP_PATH_TO_CONFIG)
              (backup_handle_entry stat) INVALID_EXIT c = Ret (r, c2)"
    and "(rc, arg', c') = (if r = NORMAL_EXIT then (NORMAL_EXIT, Dir_Buffer, c2) else (INVALID_EXIT, arg, c2))"
    using assms(2) unfolding backup_parse_is_parse_file by (auto simp: c_simps split: if_splits)
  then show ?thesis using backup_conf.parse_file_inv [OF assms(1)] by (auto split: if_splits)
qed

section \<open>What a file means\<close>

definition conf_value :: "(string \<times> string) list \<Rightarrow> string \<Rightarrow> string" where
  "conf_value es k = (case map_of es k of None \<Rightarrow> [] | Some v \<Rightarrow> v)"

definition backup_conf_of :: "(string \<times> string) list \<Rightarrow> backup_conf" where
  "backup_conf_of es =
     \<lparr>bc_path_to_dir = padded HELPERS_BUF_SIZE (conf_value es PATH_TO_DIR_DEFINE),
      bc_path_to_backup = padded HELPERS_AVER_BUFFER_SIZE (conf_value es PATH_TO_BACKUP_DEFINE),
      bc_path_to_log = padded LOGGER_PATH_TO_LOG_LEN (conf_value es PATH_TO_LOGGER_DEFINE)\<rparr>"

text \<open>An entry the loop takes: one of the three keys; the directory exists.\<close>

definition backup_entry_ok :: "(string \<Rightarrow> bool option) \<Rightarrow> string \<times> string \<Rightarrow> bool" where
  "backup_entry_ok stat e \<longleftrightarrow>
     fst e \<in> {PATH_TO_DIR_DEFINE, PATH_TO_BACKUP_DEFINE, PATH_TO_LOGGER_DEFINE} \<and>
     length (snd e) \<le> PARSER_FILE_STROKE_MAX_LEN \<and>
     (fst e = PATH_TO_DIR_DEFINE \<longrightarrow> stat (snd e) = Some True)"

lemma conf_value_absent: "k \<notin> fst ` set es \<Longrightarrow> conf_value es k = []"
  by (simp add: conf_value_def map_of_eq_None_iff [THEN iffD2])

lemma conf_value_snoc:
  "k \<notin> fst ` set es \<Longrightarrow> conf_value (es @ [(k, v)]) k' = (if k' = k then v else conf_value es k')"
  by (simp add: conf_value_def map_add_def map_of_eq_None_iff [THEN iffD2] split: option.split)

lemma backup_handle_of:
  assumes "backup_entry_ok stat (k, v)" and "k \<notin> fst ` set es"
  shows "backup_handle_entry stat k v (backup_conf_of es) = Ret (Continue (backup_conf_of (es @ [(k, v)])))"
proof -
  have len: "length v \<le> 1024" "length v \<le> 2048"
    using assms(1) by (simp_all add: backup_entry_ok_def PARSER_FILE_STROKE_MAX_LEN_def)
  have absent: "conf_value es k = []" using assms(2) by (rule conf_value_absent)
  from assms(1) consider "k = PATH_TO_DIR_DEFINE" "stat v = Some True" | "k = PATH_TO_BACKUP_DEFINE"
    | "k = PATH_TO_LOGGER_DEFINE" by (auto simp: backup_entry_ok_def)
  then show ?thesis
    unfolding backup_conf_of_def conf_value_snoc [OF assms(2)]
    by cases (use absent len in
      \<open>simp_all add: backup_handle_entry_def backup_path.setp_eq log_path.setp_eq backup_keys backup_sizes\<close>)
qed

lemma backup_apply_append:
  assumes "\<forall>e \<in> set es. backup_entry_ok stat e" and "distinct (map fst (ds @ es))"
  shows "apply_entries (backup_handle_entry stat) (es @ xs) (backup_conf_of ds)
           = apply_entries (backup_handle_entry stat) xs (backup_conf_of (ds @ es))"
  using assms
proof (induction es arbitrary: ds)
  case Nil
  then show ?case by simp
next
  case (Cons e es)
  have "fst e \<notin> fst ` set ds" using Cons.prems(2) by auto
  from backup_handle_of [OF _ this, of stat "snd e"] Cons show ?case by simp
qed

lemma backup_conf_of_Nil: "backup_conf_of [] = backup_conf_init"
  by (simp add: backup_conf_of_def conf_value_def backup_conf_init_def path_to_backup_init_def
      path_to_log_init_def)

text \<open>A directory entry that does not name a directory stops the loop.\<close>

lemma backup_apply_not_dir:
  assumes "\<forall>e \<in> set es. backup_entry_ok stat e" and "distinct (map fst es)"
    and "stat v = Some False"
  shows "apply_entries (backup_handle_entry stat) (es @ (PATH_TO_DIR_DEFINE, v) # rest) backup_conf_init
           = Ret (-1, backup_conf_of es)"
  using backup_apply_append [OF assms(1), of "[]" "(PATH_TO_DIR_DEFINE, v) # rest"] assms(2,3)
  by (simp add: backup_conf_of_Nil backup_handle_entry_def)

lemma backup_apply_all:
  assumes "\<forall>e \<in> set es. backup_entry_ok stat e" and "distinct (map fst es)"
  shows "apply_entries (backup_handle_entry stat) es backup_conf_init = Ret (0, backup_conf_of es)"
  using backup_apply_append [OF assms(1), of "[]" "[]"] assms(2) by (simp add: backup_conf_of_Nil)

text \<open>The parser on a whole file, and what the buffers read as.\<close>

lemma backup_parse_entries:
  assumes "conf_ok es" and "\<forall>e \<in> set es. backup_entry_ok stat e" and "distinct (map fst es)"
    and "getcwd = Some cwd" and "open1 (cwd @ BACKUP_PATH_TO_CONFIG) = Some (conf_file es nl)"
    and "open2 (cwd @ BACKUP_PATH_TO_CONFIG) = Some (conf_file es nl)" and "\<forall>n. alloc n"
    and "es = e # es'" and "es' \<noteq> []" and "slack cap (length (entry_text e))" and "LF \<in> set after"
  shows "backup_parse_and_serialize_config cap after getcwd open1 open2 0 alloc stat (arg, backup_conf_init)
      = Ret (NORMAL_EXIT, Dir_Buffer, backup_conf_of es)"
  unfolding backup_parse_is_parse_file
  using conf_parse_file(1) [where p = BACKUP_PATH_TO_CONFIG and ?open1.0 = open1 and ?open2.0 = open2
      and alloc = alloc and handle = "backup_handle_entry stat", OF assms(1,4-10,11)] backup_apply_all [OF assms(2,3)]
  by (simp add: NORMAL_EXIT_def)

lemma backup_conf_of_strings:
  assumes "conf_ok es" and "\<forall>e \<in> set es. backup_entry_ok stat e"
  shows "cstring (bc_path_to_dir (backup_conf_of es)) = Some (conf_value es PATH_TO_DIR_DEFINE)"
    and "backup_get_path_to_backup (bc_path_to_backup (backup_conf_of es)) = Ret (conf_value es PATH_TO_BACKUP_DEFINE)"
    and "logger_get_path_to_log (bc_path_to_log (backup_conf_of es)) = Ret (conf_value es PATH_TO_LOGGER_DEFINE)"
proof -
  have "nul_free (conf_value es k) \<and> length (conf_value es k) < 1024" for k
    using assms
    by (auto simp: conf_value_def conf_ok_def wf_entry_def backup_entry_ok_def PARSER_FILE_STROKE_MAX_LEN_def
        split: option.split dest!: map_of_SomeD)
  then show "cstring (bc_path_to_dir (backup_conf_of es)) = Some (conf_value es PATH_TO_DIR_DEFINE)"
    and "backup_get_path_to_backup (bc_path_to_backup (backup_conf_of es)) = Ret (conf_value es PATH_TO_BACKUP_DEFINE)"
    and "logger_get_path_to_log (bc_path_to_log (backup_conf_of es)) = Ret (conf_value es PATH_TO_LOGGER_DEFINE)"
    by (simp_all add: backup_conf_of_def backup_get_path_to_backup_def logger_get_path_to_log_def
        backup_sizes less_trans [of _ 1024 2048])
qed

section \<open>Properties\<close>

text \<open>
  Claim C19: a configuration file with the keys in any order, each at most once, is read into
  the three buffers: every key that is given holds its value, every other is empty, and the
  thread argument points to the directory; this needs a byte of slack on the first line and a
  newline in the memory behind the buffer.
\<close>

theorem backup_config_parsed:
  assumes "conf_ok es" and "\<forall>e \<in> set es. backup_entry_ok stat e" and "distinct (map fst es)"
    and "getcwd = Some cwd" and "open1 (cwd @ BACKUP_PATH_TO_CONFIG) = Some (conf_file es nl)"
    and "open2 (cwd @ BACKUP_PATH_TO_CONFIG) = Some (conf_file es nl)" and "\<forall>n. alloc n"
    and "es = e # es'" and "es' \<noteq> []" and "slack cap (length (entry_text e))" and "LF \<in> set after"
  shows "\<exists>c. backup_parse_and_serialize_config cap after getcwd open1 open2 0 alloc stat (arg, backup_conf_init)
             = Ret (NORMAL_EXIT, Dir_Buffer, c)
           \<and> cstring (bc_path_to_dir c) = Some (conf_value es PATH_TO_DIR_DEFINE)
           \<and> backup_get_path_to_backup (bc_path_to_backup c) = Ret (conf_value es PATH_TO_BACKUP_DEFINE)
           \<and> logger_get_path_to_log (bc_path_to_log c) = Ret (conf_value es PATH_TO_LOGGER_DEFINE)"
  using backup_parse_entries [where ?open1.0 = open1 and ?open2.0 = open2 and alloc = alloc, OF assms] backup_conf_of_strings [OF assms(1,2)] by blast

text \<open>The configuration file of the repository; gcc keeps stack arrays in units of 16 bytes.\<close>

definition backup_gcc_cap :: "nat \<Rightarrow> nat" where
  "backup_gcc_cap n = 16 * ((n + 15) div 16)"

definition repo_backup_entries :: "(string \<times> string) list" where
  "repo_backup_entries =
     [(PATH_TO_DIR_DEFINE, ''/home/k1rch/Music''), (PATH_TO_BACKUP_DEFINE, ''/home/k1rch/2023-backupd-backups''),
      (PATH_TO_LOGGER_DEFINE, ''/home/k1rch/backup_service.log'')]"

lemma repo_backup_ok:
  "conf_ok repo_backup_entries" "\<forall>e \<in> set repo_backup_entries. backup_entry_ok (\<lambda>_. Some True) e"
  "distinct (map fst repo_backup_entries)"
  by (simp_all add: repo_backup_entries_def conf_ok_def wf_entry_def entry_text_def backup_entry_ok_def
      backup_keys PARSER_FILE_STROKE_MAX_LEN_def)

lemma repo_backup_slack:
  "slack backup_gcc_cap (length (entry_text (PATH_TO_DIR_DEFINE, ''/home/k1rch/Music'')))"
proof -
  have "length (entry_text (PATH_TO_DIR_DEFINE, ''/home/k1rch/Music'')) = 30"
    by (simp add: entry_text_def PATH_TO_DIR_DEFINE_def)
  moreover have "slack backup_gcc_cap 30"
    unfolding slack_def backup_gcc_cap_def by presburger
  ultimately show ?thesis by simp
qed

theorem backup_config_parsed_witness:
  "\<exists>c. backup_parse_and_serialize_config backup_gcc_cap [LF] (Some ''/b'')
         (\<lambda>_. Some (conf_file repo_backup_entries False)) (\<lambda>_. Some (conf_file repo_backup_entries False))
         0 (\<lambda>_. True) (\<lambda>_. Some True) (No_Dir, backup_conf_init) = Ret (NORMAL_EXIT, Dir_Buffer, c)
     \<and> cstring (bc_path_to_dir c) = Some ''/home/k1rch/Music''
     \<and> backup_get_path_to_backup (bc_path_to_backup c) = Ret ''/home/k1rch/2023-backupd-backups''
     \<and> logger_get_path_to_log (bc_path_to_log c) = Ret ''/home/k1rch/backup_service.log''"
proof -
  have v: "conf_value repo_backup_entries PATH_TO_DIR_DEFINE = ''/home/k1rch/Music''"
    "conf_value repo_backup_entries PATH_TO_BACKUP_DEFINE = ''/home/k1rch/2023-backupd-backups''"
    "conf_value repo_backup_entries PATH_TO_LOGGER_DEFINE = ''/home/k1rch/backup_service.log''"
    by (simp_all add: conf_value_def repo_backup_entries_def backup_keys)
  show ?thesis
    unfolding v [symmetric]
    by (rule backup_config_parsed [OF repo_backup_ok, where nl = False
          and e = "(PATH_TO_DIR_DEFINE, ''/home/k1rch/Music'')" and es' = "tl repo_backup_entries" and cwd = "''/b''"])
       (simp_all add: repo_backup_slack, simp_all add: repo_backup_entries_def)
qed



end
