(* ===== verification/Service_Clients.thy ===== *)
theory Service_Clients
  imports Service_Manager Firewall_Config Backup_Config
begin

text \<open>
  The \<open>main\<close> functions of \<open>firewall_service_main.c\<close> and \<open>backup_service_main.c\<close>: a service sends
  its \<open>INIT\<close> message to the manager, waits for \<open>ACCEPT\<close> on the same connection and then runs its
  driver.  Both ends together are the handshake.  What the sockets answer is an environment.
\<close>

section \<open>The clients\<close>

text \<open>\<open>cl_read\<close> is what the one \<open>read\<close> delivers, \<^term>\<open>None\<close> when it fails.\<close>

record client_env =
  cl_argc :: int
  cl_address :: string
  cl_socket :: int
  cl_connect :: int
  cl_write :: int
  cl_read :: "string option"

definition FW_SERVICE_SOCKET_CREATION_EXIT :: int where "FW_SERVICE_SOCKET_CREATION_EXIT = 1"
definition FW_SERVICE_UNEXPECTED_CODE :: int where "FW_SERVICE_UNEXPECTED_CODE = 2"
definition BACKUP_SERVICE_ERROR_CODE :: int where "BACKUP_SERVICE_ERROR_CODE = -1"
definition BACKUP_SERVICE_NORMAL_CODE :: int where "BACKUP_SERVICE_NORMAL_CODE = 0"
definition BACKUP_SERVICE_SOCKET_CREATION_EXIT :: int where "BACKUP_SERVICE_SOCKET_CREATION_EXIT = 1"
definition BACKUP_SERVICE_UNEXPECTED_CODE :: int where "BACKUP_SERVICE_UNEXPECTED_CODE = 2"

lemmas client_codes =
  FW_SERVICE_ERROR_CODE_def FW_SERVICE_NORMAL_CODE_def FW_SERVICE_SOCKET_CREATION_EXIT_def FW_SERVICE_UNEXPECTED_CODE_def
  BACKUP_SERVICE_ERROR_CODE_def BACKUP_SERVICE_NORMAL_CODE_def BACKUP_SERVICE_SOCKET_CREATION_EXIT_def
  BACKUP_SERVICE_UNEXPECTED_CODE_def

definition say_hello_firewall_service :: service_message where
  "say_hello_firewall_service =
     \<lparr>process_id = process_id_code firewall_service_process_type,
      signal = firewall_signal_code SIGNAL_FIREWALL_INIT, message_data = replicate MSS_BUFFER_SIZE NUL\<rparr>"

definition say_hello_backup_service :: service_message where
  "say_hello_backup_service =
     \<lparr>process_id = process_id_code backup_service_process_type,
      signal = backup_signal_code SIGNAL_BACKUP_INIT, message_data = replicate MSS_BUFFER_SIZE NUL\<rparr>"

definition firewall_service_err_handler :: "int option \<Rightarrow> int ending" where
  "firewall_service_err_handler data =
     ((case data of None \<Rightarrow> [] | Some fd \<Rightarrow> [fd]), Exit FW_SERVICE_SOCKET_CREATION_EXIT)"

definition firewall_main :: "int outcome \<Rightarrow> client_env \<Rightarrow> int ending" where
  "firewall_main start env =
     (let sockfd = cl_socket env; done = ([sockfd], Ret FW_SERVICE_NORMAL_CODE) in
      if cl_argc env \<noteq> FW_SERVICE_UNEXPECTED_CODE then firewall_service_err_handler None
      else if FW_SERVICE_ERROR_CODE = sockfd then firewall_service_err_handler None
      else if inet_aton (cl_address env) = None then firewall_service_err_handler (Some sockfd)
      else if FW_SERVICE_ERROR_CODE = cl_connect env then firewall_service_err_handler (Some sockfd)
      else if cl_write env < 0 then firewall_service_err_handler (Some sockfd)
      else (case cl_read env of
              None \<Rightarrow> firewall_service_err_handler (Some sockfd)
            | Some answer \<Rightarrow>
                if firewall_signal_code SIGNAL_MAKE_FIREWALL_ACCEPT = msg_signal (read_into answer (replicate message_sizeof NUL))
                then (case start of
                        Ret rc \<Rightarrow> if FW_SERVICE_NORMAL_CODE \<noteq> rc then firewall_service_err_handler (Some sockfd) else done
                      | Exit c \<Rightarrow> ([], Exit c)
                      | Fault f \<Rightarrow> ([], Fault f))
                else done))"

definition backup_service_err_handler :: "int option \<Rightarrow> int ending" where
  "backup_service_err_handler data =
     ((case data of None \<Rightarrow> [] | Some fd \<Rightarrow> [fd]), Exit BACKUP_SERVICE_SOCKET_CREATION_EXIT)"

definition backup_main :: "int outcome \<Rightarrow> client_env \<Rightarrow> int ending" where
  "backup_main start env =
     (let sockfd = cl_socket env; done = ([sockfd], Ret BACKUP_SERVICE_NORMAL_CODE) in
      if cl_argc env \<noteq> BACKUP_SERVICE_UNEXPECTED_CODE then backup_service_err_handler None
      else if BACKUP_SERVICE_ERROR_CODE = sockfd then backup_service_err_handler None
      else if inet_aton (cl_address env) = None then backup_service_err_handler (Some sockfd)
      else if BACKUP_SERVICE_ERROR_CODE = cl_connect env then backup_service_err_handler (Some sockfd)
      else if cl_write env < 0 then backup_service_err_handler (Some sockfd)
      else (case cl_read env of
              None \<Rightarrow> backup_service_err_handler (Some sockfd)
            | Some answer \<Rightarrow>
                if backup_signal_code SIGNAL_MAKE_BACKUP_ACCEPT = msg_signal (read_into answer (replicate message_sizeof NUL))
                then (case start of
                        Ret rc \<Rightarrow> if NORMAL_EXIT \<noteq> rc then backup_service_err_handler (Some sockfd) else done
                      | Exit c \<Rightarrow> ([], Exit c)
                      | Fault f \<Rightarrow> ([], Fault f))
                else done))"

text \<open>
  The two \<open>main\<close> functions are one program: \<open>accept\<close> is the signal waited for, \<open>start\<close> the
  driver.  Once the socket is there it is closed on every way out, exactly once.
\<close>

definition connected :: "client_env \<Rightarrow> bool" where
  "connected env \<longleftrightarrow> cl_argc env = 2 \<and> cl_socket env \<noteq> -1 \<and> inet_aton (cl_address env) \<noteq> None
     \<and> cl_connect env \<noteq> -1 \<and> 0 \<le> cl_write env"

definition client_result :: "int \<Rightarrow> int outcome \<Rightarrow> int ending" where
  "client_result fd start =
     (case start of
        Ret rc \<Rightarrow> ([fd], if rc \<noteq> 0 then Exit 1 else Ret 0)
      | Exit c \<Rightarrow> ([], Exit c)
      | Fault f \<Rightarrow> ([], Fault f))"

definition client_main :: "u8 \<Rightarrow> int outcome \<Rightarrow> client_env \<Rightarrow> int ending" where
  "client_main accept start env =
     (if \<not> connected env \<or> cl_read env = None
      then (if cl_argc env \<noteq> 2 \<or> cl_socket env = -1 then [] else [cl_socket env], Exit 1)
      else if msg_signal (read_into (the (cl_read env)) (replicate message_sizeof NUL)) = accept
      then client_result (cl_socket env) start
      else ([cl_socket env], Ret 0))"

lemma firewall_main_eq: "firewall_main = client_main 2"
  by (intro ext)
     (auto simp: firewall_main_def client_main_def connected_def client_result_def client_codes Let_def
        firewall_service_err_handler_def split: option.splits outcome.splits)

lemma backup_main_eq: "backup_main = client_main 2"
  by (intro ext)
     (auto simp: backup_main_def client_main_def connected_def client_result_def client_codes Let_def
        backup_service_err_handler_def NORMAL_EXIT_def split: option.splits outcome.splits)

section \<open>The handshake\<close>

text \<open>
  What a service and the manager agree on: a well-formed greeting that the manager answers
  with the signal the service waits for.
\<close>

locale handshake =
  fixes hello :: service_message
    and accept :: u8
    and main :: "int outcome \<Rightarrow> client_env \<Rightarrow> int ending"
  assumes hello_wf: "message_wf hello"
    and hello_reply: "reply hello = Some (hello\<lparr>signal := accept\<rparr>)"
    and main_eq: "main = client_main accept"
    and accept_not_0: "accept \<noteq> 0"
begin

lemma manager_answers:
  "length mem = message_sizeof \<Longrightarrow>
     message_loop args (\<lambda>_. True) mem [message_bytes hello] []
       = ([message_bytes (hello\<lparr>signal := accept\<rparr>)], ([], Exit MGR_SERVICE_NORMAL_CODE))"
  using message_loop_whole [of "[hello]" mem args "[]"] hello_wf by (simp add: hello_reply List.map_filter_simps)

text \<open>A connection on which both messages arrive whole starts the service.\<close>

lemma handshake_starts:
  assumes "length mem = message_sizeof" and "connected env"
    and "cl_read env = Some answer" and "fst (message_loop args (\<lambda>_. True) mem [message_bytes hello] []) = [answer]"
  shows "main start env = client_result (cl_socket env) start"
proof -
  have "answer = message_bytes (hello\<lparr>signal := accept\<rparr>)"
    using manager_answers [OF assms(1), of args] assms(4) by simp
  moreover have "length (message_bytes (hello\<lparr>signal := accept\<rparr>)) = message_sizeof"
    using hello_wf by (simp add: message_bytes_length)
  ultimately show ?thesis using assms(2,3) by (auto simp: main_eq client_main_def)
qed

text \<open>A connection that is closed without an answer ends the service without an error.\<close>

lemma no_answer:
  assumes "connected env" and "cl_read env = Some []"
  shows "main start env = ([cl_socket env], Ret 0)"
proof -
  have "msg_signal (replicate message_sizeof NUL) = 0"
    by (simp add: msg_signal_def byte_def message_sizeof_def)
  then show ?thesis
    using assms accept_not_0 by (auto simp: main_eq client_main_def read_into_def)
qed

text \<open>Every way to the connection that fails ends the service with the error code.\<close>

lemma not_connected:
  assumes "\<not> connected env \<or> cl_read env = None"
  shows "main start env = (if cl_argc env \<noteq> 2 \<or> cl_socket env = -1 then [] else [cl_socket env], Exit 1)"
  using assms by (simp add: main_eq client_main_def)

end

interpretation fw_handshake: handshake say_hello_firewall_service 2 firewall_main
  by unfold_locales
     (simp_all add: message_wf_def reply_def say_hello_firewall_service_def firewall_main_eq)

interpretation backup_handshake: handshake say_hello_backup_service 2 backup_main
  by unfold_locales
     (simp_all add: message_wf_def reply_def say_hello_backup_service_def backup_main_eq)

section \<open>Greetings in pieces\<close>

lemma byte_front: "i < length x \<Longrightarrow> byte (x @ y) i = byte x i"
  by (simp add: byte_def nth_append)

lemma msg_front:
  assumes "5 \<le> length x"
  shows "msg_process_id (x @ y) = msg_process_id x" and "msg_signal (x @ y) = msg_signal x"
proof -
  have "byte (x @ y) i = byte x i" if "i < 5" for i using that assms by (simp add: byte_front)
  then show "msg_process_id (x @ y) = msg_process_id x" "msg_signal (x @ y) = msg_signal x"
    by (simp_all add: msg_process_id_def le32_of_def msg_signal_def)
qed

lemma msg_process_id_set [simp]: "msg_process_id (msg_set_signal s mem) = msg_process_id mem"
  by (simp add: msg_process_id_def le32_of_def msg_set_signal_def byte_def)

lemma msg_zeros:
  assumes "5 \<le> n"
  shows "msg_process_id (replicate n NUL) = 0" and "msg_signal (replicate n NUL) = 0"
  using assms by (simp_all add: msg_process_id_def le32_of_def msg_signal_def byte_def)

lemma hello_tail:
  assumes "5 \<le> k"
  shows "drop k (message_bytes say_hello_firewall_service) = replicate (520 - k) NUL"
proof -
  have "message_bytes say_hello_firewall_service = (le32_bytes 1 @ [NUL]) @ replicate 515 NUL"
    by (simp add: message_bytes_def say_hello_firewall_service_def MSS_BUFFER_SIZE_def replicate_add [symmetric] char_of_def)
  moreover have "length (le32_bytes 1 @ [NUL]) = 5" by simp
  ultimately show ?thesis using assms by (simp del: append_assoc)
qed

section \<open>Properties\<close>


definition sample_args :: mgr_service_process_args where
  "sample_args = \<lparr>ma_sockfd = 3, ma_newsockfd = 4\<rparr>"

definition sample_client :: client_env where
  "sample_client = \<lparr>cl_argc = 2, cl_address = ''127.0.0.1'', cl_socket = 3, cl_connect = 0, cl_write = 520,
                    cl_read = None\<rparr>"

lemma sample_connected: "connected sample_client"
proof -
  have "nat_dec 127 = ''127''" "nat_dec 0 = ''0''" "nat_dec (Suc 0) = ''1''" by code_simp+
  then have "inet_ntoa 16777343 = ''127.0.0.1''" by (simp add: inet_ntoa_def octet_def)
  then show ?thesis using inet_aton_ntoa [of 16777343] by (simp add: connected_def sample_client_def)
qed


text \<open>
  Claim C37: the manager's answers to whole messages.  Of a sequence of whole messages exactly
  those with a known process and its \<open>INIT\<close> signal are answered, in their order and each by
  itself with the signal \<open>ACCEPT\<close>; the others get no answer.
\<close>

theorem manager_replies:
  assumes "\<forall>m \<in> set ms. message_wf m" and "length mem = message_sizeof"
  shows "message_loop args (\<lambda>_. True) mem (map message_bytes ms) []
           = (map message_bytes (List.map_filter reply ms), ([], Exit MGR_SERVICE_NORMAL_CODE))"
  using message_loop_whole [OF assms, of args "[]"] by simp

theorem manager_replies_witness:
  "message_loop sample_args (\<lambda>_. True) (replicate 520 NUL)
     (map message_bytes [say_hello_backup_service, say_hello_backup_service\<lparr>signal := 1\<rparr>, say_hello_firewall_service]) []
   = (map message_bytes [say_hello_backup_service\<lparr>signal := 2\<rparr>, say_hello_firewall_service\<lparr>signal := 2\<rparr>], ([], Exit 0))"
proof -
  have "reply (say_hello_backup_service\<lparr>signal := 1\<rparr>) = None" by (simp add: reply_def)
  then show ?thesis
    using manager_replies [of "[say_hello_backup_service, say_hello_backup_service\<lparr>signal := 1\<rparr>, say_hello_firewall_service]"
        "replicate 520 NUL" sample_args]
      backup_handshake.hello_wf fw_handshake.hello_wf backup_handshake.hello_reply fw_handshake.hello_reply
    by (simp add: List.map_filter_simps message_sizeof_def MGR_SERVICE_NORMAL_CODE_def)
qed

text \<open>
  Claim C38: no denial.  Whatever bytes a client sends, in whatever pieces, everything the
  manager sends is a whole message with the signal \<open>ACCEPT\<close>, at most one per read.  The
  serving process ends with 0 unless a write fails; the first one that does ends it with 1, both
  sockets closed, and the denial that is stored is never sent.
\<close>

theorem manager_only_accepts:
  assumes "length mem = message_sizeof" and "message_loop args wr mem reads [] = (sent, ending)"
  shows "length sent \<le> length reads
     \<and> (\<forall>s \<in> set sent. length s = message_sizeof \<and> msg_signal s = 2)
     \<and> (\<forall>k < length sent. wr k)
     \<and> (ending = ([], Exit 0)
        \<or> \<not> wr (length sent) \<and> ending = ([ma_sockfd args, ma_newsockfd args], Exit 1))"
  using message_loop_count [of args wr mem reads "[]"] message_loop_accepts [OF assms(1), of "[]" args wr reads]
    message_loop_writes [of "[]" wr args mem reads] assms(2)
  by (simp add: accept_message_def)

theorem manager_only_accepts_witness:
  "message_loop sample_args (\<lambda>_. False) (replicate 520 NUL) [message_bytes say_hello_firewall_service] []
     = ([], ([3, 4], Exit 1))
   \<and> fst (message_loop sample_args (\<lambda>_. False) (replicate 520 NUL) [''ab'', ''cde''] []) = []"
proof -
  have "is_init (message_bytes say_hello_firewall_service)" by (simp add: say_hello_firewall_service_def)
  moreover have "length (message_bytes say_hello_firewall_service) = 520"
    using message_bytes_length [OF fw_handshake.hello_wf] by (simp add: message_sizeof_def)
  ultimately have "message_loop sample_args (\<lambda>_. False) (replicate 520 NUL) [message_bytes say_hello_firewall_service] []
     = ([], service_err_handler None (Some sample_args))"
    by (simp add: message_loop_Cons)
  moreover obtain sent ending where m: "message_loop sample_args (\<lambda>_. False) (replicate 520 NUL) [''ab'', ''cde''] [] = (sent, ending)"
    by (rule prod.exhaust)
  then have "\<forall>k < length sent. False"
    using manager_only_accepts [OF _ m] by (simp add: message_sizeof_def)
  then have "sent = []" by auto
  ultimately show ?thesis unfolding m by (simp add: service_err_handler_def sample_args_def mgr_codes)
qed

text \<open>
  Claim C39: TCP does not keep messages whole, and the manager takes every read for a message.
  A firewall greeting that arrives in two pieces (cut anywhere from byte 5 to byte 515) is
  answered twice: once as itself, and once as a backup greeting, because the zero bytes of
  its tail overwrite the process id and the signal.
\<close>

theorem split_greeting_answered_twice:
  assumes "length mem = message_sizeof" and "5 \<le> k" and "k \<le> 515"
  shows "\<exists>a b. message_loop args (\<lambda>_. True) mem
             [take k (message_bytes say_hello_firewall_service), drop k (message_bytes say_hello_firewall_service)] []
           = ([a, b], ([], Exit MGR_SERVICE_NORMAL_CODE))
     \<and> msg_process_id a = process_id_code firewall_service_process_type
     \<and> msg_process_id b = process_id_code backup_service_process_type"
proof -
  let ?h = "message_bytes say_hello_firewall_service"
  have h: "length ?h = 520" "msg_process_id ?h = 1" "msg_signal ?h = 0"
    using message_bytes_length [OF fw_handshake.hello_wf]
    by (simp_all add: message_sizeof_def) (simp_all add: say_hello_firewall_service_def)
  have "msg_process_id (take k ?h) = 1" "msg_signal (take k ?h) = 0"
    using msg_front [of "take k ?h" "drop k ?h"] assms(2) h by simp_all
  moreover have r1: "read_into (take k ?h) mem = take k ?h @ drop k mem"
    using assms h by (simp add: read_into_def message_sizeof_def)
  ultimately have m1: "msg_process_id (read_into (take k ?h) mem) = 1" "msg_signal (read_into (take k ?h) mem) = 0"
    using msg_front [of "take k ?h" "drop k mem"] assms(2) h(1) by simp_all
  define a where "a = msg_set_signal 2 (read_into (take k ?h) mem)"
  have "length a = 520" using assms(1) by (simp add: a_def message_sizeof_def)
  then have "read_into (drop k ?h) a = replicate (520 - k) NUL @ drop (520 - k) a"
    using assms hello_tail [OF assms(2)] by (simp add: read_into_def)
  then have m2: "msg_process_id (read_into (drop k ?h) a) = 0" "msg_signal (read_into (drop k ?h) a) = 0"
    using msg_front [of "replicate (520 - k) NUL"] msg_zeros [of "520 - k"] assms(3) by simp_all
  have "message_loop args (\<lambda>_. True) mem [take k ?h, drop k ?h] []
      = ([a, msg_set_signal 2 (read_into (drop k ?h) a)], ([], Exit MGR_SERVICE_NORMAL_CODE))"
    using m1 m2 by (simp add: message_loop_Cons is_init_def a_def)
  then show ?thesis using m1 m2 by (auto simp: a_def)
qed

theorem split_greeting_answered_twice_witness:
  "length (fst (message_loop sample_args (\<lambda>_. True) (replicate 520 NUL)
     [take 8 (message_bytes say_hello_firewall_service), drop 8 (message_bytes say_hello_firewall_service)] [])) = 2"
  using split_greeting_answered_twice [of "replicate 520 NUL" 8 sample_args] by (auto simp: message_sizeof_def)

end
