(* ===== verification/Backup_Events.thy ===== *)
theory Backup_Events
  imports Backup_Config Event_Queue Hash_Table Net_Address
begin

unbundle bit_operations_syntax

text \<open>
  \<open>handle_event\<close> of \<open>services/backup_service/helpers_backup_common.c\<close> with the functions it
  calls: the search for the directory of a file (\<open>backup_helpers_find_file\<close>) and the copy
  (\<open>backup_fs_make_backup\<close>).  Directories, the log file system and \<open>system\<close> are the outside:
  listings are an argument, commands and log lines are collected in the state.
\<close>

section \<open>State\<close>

definition HELPERS_DOT :: char where "HELPERS_DOT = CHR ''.''"
definition HELPERS_SLASH :: char where "HELPERS_SLASH = CHR ''/''"
definition HELPERS_FILE :: string where "HELPERS_FILE = ''File''"
definition COPY_COMMAND :: string where "COPY_COMMAND = ''/bin/cp''"

text \<open>The event bits of \<open><sys/inotify.h>\<close>.\<close>

definition IN_MODIFY :: u32 where "IN_MODIFY = 0x2"
definition IN_CLOSE_WRITE :: u32 where "IN_CLOSE_WRITE = 0x8"
definition IN_CLOSE_NOWRITE :: u32 where "IN_CLOSE_NOWRITE = 0x10"
definition IN_MOVED_FROM :: u32 where "IN_MOVED_FROM = 0x40"
definition IN_CREATE :: u32 where "IN_CREATE = 0x100"
definition IN_DELETE :: u32 where "IN_DELETE = 0x200"
definition IN_ALL_EVENTS :: u32 where "IN_ALL_EVENTS = 0xFFF"
definition IN_Q_OVERFLOW :: u32 where "IN_Q_OVERFLOW = 0x4000"
definition IN_IGNORED :: u32 where "IN_IGNORED = 0x8000"
definition IN_ISDIR :: u32 where "IN_ISDIR = 0x40000000"

lemmas inotify_bits = IN_MODIFY_def IN_CLOSE_WRITE_def IN_CLOSE_NOWRITE_def IN_MOVED_FROM_def IN_CREATE_def
  IN_DELETE_def IN_ALL_EVENTS_def IN_Q_OVERFLOW_def IN_IGNORED_def IN_ISDIR_def

definition DT_REG :: nat where "DT_REG = 8"

record dirent =
  d_type :: nat
  d_name :: string

text \<open>
  What the two threads share: the flags and counters, the thread argument (\<open>path_to_dir\<close> and
  the table), the path buffers, and the outside (log files, commands run, directory streams
  left open).
\<close>

record bk_state =
  bk_running :: bool
  bk_watched :: "64 word"
  bk_arg_dir :: dir_ref
  bk_table :: hash_table
  bk_items :: hheap
  bk_conf :: backup_conf
  bk_files :: log_files
  bk_commands :: "string list"
  bk_open_dirs :: nat

text \<open>
  \<open>opendir\<close> gives the listing of a path, \<open>can_open\<close> says which log paths open, \<open>over\<close> is
  what a string read sees behind the value block of an item.
\<close>

record bk_env =
  be_opendir :: "string \<Rightarrow> dirent list option"
  be_can_open :: "string \<Rightarrow> bool"
  be_over :: "addr \<Rightarrow> string"

section \<open>Finding the directory\<close>

text \<open>\<open>while ((de = readdir(dr)))\<close>: a regular file whose name contains the pattern.\<close>

fun find_file_loop :: "string \<Rightarrow> dirent list \<Rightarrow> bool" where
  "find_file_loop pattern [] = False"
| "find_file_loop pattern (de # des) =
     (if d_type de = DT_REG \<and> strstr (d_name de) pattern then True else find_file_loop pattern des)"

definition backup_helpers_find_file :: "bool \<Rightarrow> string \<Rightarrow> dirent list \<Rightarrow> bool" where
  "backup_helpers_find_file running pattern dr = (if \<not> running then False else find_file_loop pattern dr)"

datatype search_end = Dir_Found addr | All_Searched | Dir_Missing | Out_Of_Fuel

text \<open>
  \<open>while (hi)\<close>: from the node back along \<open>previous\<close>, at most \<open>fuel\<close> items; the second
  component counts the directory streams that were opened (none is closed).
\<close>

fun search_dirs ::
  "bk_env \<Rightarrow> bool \<Rightarrow> string \<Rightarrow> hheap \<Rightarrow> nat \<Rightarrow> addr option \<Rightarrow> nat \<Rightarrow> (search_end \<times> nat) outcome" where
  "search_dirs env running name h fuel None opened = Ret (All_Searched, opened)"
| "search_dirs env running name h 0 (Some a) opened = Ret (Out_Of_Fuel, opened)"
| "search_dirs env running name h (Suc fuel) (Some a) opened =
     (case fmlookup h a of
        None \<Rightarrow> Fault Use_After_Free
      | Some hi \<Rightarrow>
          (case be_opendir env (item_str (be_over env) a hi) of
             None \<Rightarrow> Ret (Dir_Missing, opened)
           | Some thread_directory \<Rightarrow>
               if \<not> backup_helpers_find_file running name thread_directory
               then search_dirs env running name h fuel (hi_previous hi) (opened + 1)
               else Ret (Dir_Found a, opened + 1)))"

section \<open>Copying\<close>

text \<open>What the thread argument's path reads as.\<close>

definition arg_path :: "bk_env \<Rightarrow> bk_state \<Rightarrow> string outcome" where
  "arg_path env s =
     (case bk_arg_dir s of
        No_Dir \<Rightarrow> Fault Null_Deref
      | Dir_Buffer \<Rightarrow> oget Oob_Read (cstring (bc_path_to_dir (bk_conf s)))
      | Item_Value a \<Rightarrow>
          (case fmlookup (bk_items s) a of
             None \<Rightarrow> Fault Use_After_Free | Some hi \<Rightarrow> Ret (item_str (be_over env) a hi)))"

text \<open>\<open>SLASH_FOUNDED == strlen(strrchr(path, '/'))\<close>\<close>

definition ends_in_slash :: "string \<Rightarrow> bool outcome" where
  "ends_in_slash path =
     obind (oget Null_Deref (strrchr path HELPERS_SLASH)) (\<lambda>t. Ret (length t = 1))"

text \<open>\<open>sprintf\<close> into an array of \<open>n\<close> bytes.\<close>

definition sprintf_into :: "nat \<Rightarrow> string \<Rightarrow> string outcome" where
  "sprintf_into n text = (if length text < n then Ret text else Fault Oob_Write)"

definition backup_fs_make_backup :: "string \<Rightarrow> bk_state \<Rightarrow> bk_state outcome" where
  "backup_fs_make_backup path_to_file s =
     obind (backup_get_path_to_backup (bc_path_to_backup (bk_conf s))) (\<lambda>path_to_backup.
     obind (ends_in_slash path_to_backup) (\<lambda>slash.
     obind (sprintf_into (HELPERS_BUF_SIZE + HELPERS_AVER_BUFFER_SIZE + 1)
              (COPY_COMMAND @ '' '' @ path_to_file @ '' '' @ path_to_backup @ (if slash then [] else ''/''))) (\<lambda>command.
       Ret (s\<lparr>bk_commands := bk_commands s @ [command]\<rparr>))))"

section \<open>The event\<close>

text \<open>\<open>%X\<close> and \<open>%d\<close>.\<close>

definition upper_hex_digit :: "nat \<Rightarrow> char" where
  "upper_hex_digit d = (if d < 10 then char_of (48 + d) else char_of (55 + d))"

fun nat_hex :: "nat \<Rightarrow> string" where
  "nat_hex n = (if n < 16 then [upper_hex_digit n] else nat_hex (n div 16) @ [upper_hex_digit (n mod 16)])"

declare nat_hex.simps [simp del]

definition int_dec :: "int \<Rightarrow> string" where
  "int_dec i = (if i < 0 then CHR ''-'' # nat_dec (nat (- i)) else nat_dec (nat i))"

text \<open>The branches of the \<open>switch\<close>: a return, or a message and whether to make a copy.\<close>

datatype switch_end = Return_Now | Message string bool

definition event_switch :: "inotify_event \<Rightarrow> string \<Rightarrow> bk_state \<Rightarrow> switch_end \<times> bk_state" where
  "event_switch ev filename s =
     (let what = ie_mask ev AND (IN_ALL_EVENTS OR IN_Q_OVERFLOW OR IN_IGNORED) in
      if what = IN_CREATE then
        (Message (''CREATE: '' @ HELPERS_FILE @ '' \"'' @ filename @ ''\", need to backup'') True, s)
      else if what = IN_DELETE then
        (Message (''DELETE: '' @ HELPERS_FILE @ '' \"'' @ filename @ ''\" need to backup'') True, s)
      else if what = IN_CLOSE_WRITE then
        (Message (''CLOSE_WRITE: '' @ HELPERS_FILE @ '' \"'' @ filename @ ''\"'') False, s)
      else if what = IN_CLOSE_NOWRITE then
        (Message (''IN_CLOSE_NOWRITE: '' @ HELPERS_FILE @ '' \"'' @ filename @ ''\"'') False, s)
      else if what = IN_MODIFY then
        (Message (''MODIFY: '' @ HELPERS_FILE @ '' \"'' @ filename @ ''\" need to backup'') True, s)
      else if what = IN_MOVED_FROM then
        (Message (''MOVED_FROM: '' @ HELPERS_FILE @ '' \"'' @ filename @ ''\" Cookie='' @ int_dec (sint (ie_cookie ev))) False, s)
      else if what = IN_IGNORED then
        (let s1 = s\<lparr>bk_watched := bk_watched s - 1\<rparr> in
         if bk_watched s1 = 0 then (Return_Now, s1) else (Message [] False, s1))
      else if what = IN_Q_OVERFLOW then (Return_Now, s)
      else
        (Message (''UNKNOWN EVENT \"'' @ nat_hex (unat (ie_mask ev)) @ ''\" OCCURRED for file \"'' @ filename @
                  ''\", need to backup'') True, s))"

text \<open>
  The handler.  \<open>ie_name\<close> is the array behind the event (\<open>ie_len\<close> bytes with the padding): when
  it is empty the file name stays \<open>NULL\<close> and is dereferenced.
\<close>

definition handle_event :: "bk_env \<Rightarrow> inotify_event \<Rightarrow> bk_state \<Rightarrow> bk_state outcome" where
  "handle_event env ev s =
     (if ie_mask ev AND IN_ISDIR \<noteq> 0 then Ret s
      else if ie_len ev = 0 then Fault Null_Deref
      else
        obind (oget Oob_Read (cstring (ie_name ev))) (\<lambda>filename.
          if filename \<noteq> [] \<and> hd filename = HELPERS_DOT then Ret s
          else
            obind (search_dirs env (bk_running s) filename (bk_items s) (fcard (fmdom (bk_items s)))
                     (ht_node (bk_table s)) (bk_open_dirs s)) (\<lambda>(found, opened).
              let s1 = s\<lparr>bk_open_dirs := opened\<rparr> in
              if found = Dir_Missing then Ret s1
              else
                let s2 = (case found of Dir_Found a \<Rightarrow> s1\<lparr>bk_arg_dir := Item_Value a\<rparr> | _ \<Rightarrow> s1) in
                case event_switch ev filename s2 of
                  (Return_Now, s3) \<Rightarrow> Ret s3
                | (Message message need_to_backup, s3) \<Rightarrow>
                    obind (sprintf_into HELPERS_AVER_BUFFER_SIZE message) (\<lambda>message_buffer.
                    obind (logger (be_can_open env) (bc_path_to_log (bk_conf s3)) (Some message_buffer) (bk_files s3))
                      (\<lambda>(_, files).
                        let s4 = s3\<lparr>bk_files := files\<rparr> in
                        if \<not> need_to_backup then Ret s4
                        else
                          obind (arg_path env s4) (\<lambda>dir.
                          obind (ends_in_slash dir) (\<lambda>slash.
                          obind (sprintf_into HELPERS_BUF_SIZE (dir @ (if slash then [] else ''/'') @ filename)) (\<lambda>full_path.
                            backup_fs_make_backup full_path s4))))))))"

section \<open>The search on a well-formed table\<close>

definition path_of :: "bk_env \<Rightarrow> hheap \<Rightarrow> addr \<Rightarrow> string" where
  "path_of env h a = value_of h a @ be_over env a"

definition holds_file :: "bk_env \<Rightarrow> hheap \<Rightarrow> string \<Rightarrow> addr \<Rightarrow> bool" where
  "holds_file env h name a \<longleftrightarrow>
     (case be_opendir env (path_of env h a) of None \<Rightarrow> False
      | Some des \<Rightarrow> \<exists>de \<in> set des. d_type de = DT_REG \<and> sublist name (d_name de))"

definition can_list :: "bk_env \<Rightarrow> hheap \<Rightarrow> addr \<Rightarrow> bool" where
  "can_list env h a \<longleftrightarrow> be_opendir env (path_of env h a) \<noteq> None"

lemma find_file_loop_iff:
  "find_file_loop pattern des \<longleftrightarrow> (\<exists>de \<in> set des. d_type de = DT_REG \<and> sublist pattern (d_name de))"
  by (induction des) (auto simp: strstr_iff_sublist)

lemma search_dirs_step:
  assumes "fmlookup h a = Some hi"
  shows "search_dirs env True name h (Suc fuel) (Some a) n =
    (if \<not> can_list env h a then Ret (Dir_Missing, n)
     else if holds_file env h name a then Ret (Dir_Found a, n + 1)
     else search_dirs env True name h fuel (hi_previous hi) (n + 1))"
  using assms
  by (auto simp: can_list_def holds_file_def path_of_def item_str_def value_of_def backup_helpers_find_file_def
      find_file_loop_iff split: option.splits)

declare search_dirs.simps(3) [simp del]

text \<open>All items before the end of the search are directories without the file.\<close>

lemma search_dirs_skip:
  assumes "node_chain h p (xs @ ys)" and "\<forall>a \<in> set xs. can_list env h a \<and> \<not> holds_file env h name a"
  shows "\<exists>q. node_chain h q ys \<and>
    search_dirs env True name h (length xs + fuel) p n = search_dirs env True name h fuel q (n + length xs)"
  using assms
proof (induction xs arbitrary: p n)
  case Nil
  then show ?case by auto
next
  case (Cons a xs)
  then obtain hi where p: "p = Some a" and hi: "fmlookup h a = Some hi"
    and rest: "node_chain h (hi_previous hi) (xs @ ys)" by (auto split: option.splits)
  from Cons.IH [OF rest, of "n + 1"] Cons.prems(2) show ?case
    by (auto simp: p search_dirs_step [OF hi])
qed

text \<open>The items of a chain are live, so the number of live items is fuel enough.\<close>

lemma node_chain_live: "node_chain h p as \<Longrightarrow> a \<in> set as \<Longrightarrow> a |\<in>| fmdom h"
  by (induction h p as rule: node_chain.induct) (auto split: option.splits intro: fmdomI)

lemma node_chain_fuel:
  assumes "node_chain h p as" and "distinct as"
  shows "length as \<le> fcard (fmdom h)"
proof -
  have "set as \<subseteq> fset (fmdom h)" using node_chain_live [OF assms(1)] by auto
  then have "card (set as) \<le> card (fset (fmdom h))" by (rule card_mono [rotated]) simp
  then show ?thesis using assms(2) by (simp add: distinct_card fcard.rep_eq)
qed

lemma search_all:
  assumes "node_chain h p as" and "distinct as"
    and "\<forall>a \<in> set as. can_list env h a \<and> \<not> holds_file env h name a"
  shows "search_dirs env True name h (fcard (fmdom h)) p n = Ret (All_Searched, n + length as)"
proof -
  obtain fuel where fuel: "fcard (fmdom h) = length as + fuel"
    using node_chain_fuel [OF assms(1,2)] le_Suc_ex by blast
  have "node_chain h p (as @ [])" using assms(1) by simp
  from search_dirs_skip [OF this assms(3)] show ?thesis unfolding fuel by auto
qed

lemma search_stops:
  assumes "node_chain h p (xs @ a # ys)" and "distinct (xs @ a # ys)"
    and "\<forall>b \<in> set xs. can_list env h b \<and> \<not> holds_file env h name b"
  shows "\<not> can_list env h a \<Longrightarrow>
      search_dirs env True name h (fcard (fmdom h)) p n = Ret (Dir_Missing, n + length xs)"
    and "can_list env h a \<Longrightarrow> holds_file env h name a \<Longrightarrow>
      search_dirs env True name h (fcard (fmdom h)) p n = Ret (Dir_Found a, n + length xs + 1)"
proof -
  obtain fuel where fuel: "fcard (fmdom h) = length xs + Suc fuel"
    using le_Suc_ex [OF node_chain_fuel [OF assms(1,2)]] by auto
  obtain q where q: "node_chain h q (a # ys)"
    and skip: "search_dirs env True name h (length xs + Suc fuel) p n
                 = search_dirs env True name h (Suc fuel) q (n + length xs)"
    using search_dirs_skip [OF assms(1,3)] by blast
  then obtain hi where "q = Some a" "fmlookup h a = Some hi" by (auto split: option.splits)
  then show "\<not> can_list env h a \<Longrightarrow>
      search_dirs env True name h (fcard (fmdom h)) p n = Ret (Dir_Missing, n + length xs)"
    and "can_list env h a \<Longrightarrow> holds_file env h name a \<Longrightarrow>
      search_dirs env True name h (fcard (fmdom h)) p n = Ret (Dir_Found a, n + length xs + 1)"
    unfolding fuel skip by (simp_all add: search_dirs_step)
qed

text \<open>The search returns, finds only items of the chain and opens each of them at most once.\<close>

lemma search_returns:
  assumes "node_chain h p as" and "length as \<le> fuel"
  shows "\<exists>found m. search_dirs env running name h fuel p n = Ret (found, m) \<and> n \<le> m \<and> m \<le> n + length as
     \<and> found \<noteq> Out_Of_Fuel \<and> (\<forall>a. found = Dir_Found a \<longrightarrow> a \<in> set as)"
  using assms
proof (induction as arbitrary: p fuel n)
  case Nil
  then show ?case by auto
next
  case (Cons a as)
  then obtain hi f where p: "p = Some a" and hi: "fmlookup h a = Some hi" and rest: "node_chain h (hi_previous hi) as"
    and f: "fuel = Suc f" "length as \<le> f" by (cases fuel) (auto split: option.splits)
  show ?case
  proof (cases "be_opendir env (item_str (be_over env) a hi)")
    case None
    then show ?thesis by (simp add: p f search_dirs.simps hi)
  next
    case (Some des)
    show ?thesis
    proof (cases "backup_helpers_find_file running name des")
      case True
      with Some show ?thesis by (simp add: p f search_dirs.simps hi)
    next
      case False
      with Some have "search_dirs env running name h fuel p n = search_dirs env running name h f (hi_previous hi) (n + 1)"
        by (simp add: p f search_dirs.simps hi)
      with Cons.IH [OF rest f(2), of "n + 1"] show ?thesis by fastforce
    qed
  qed
qed

lemma search_effect:
  assumes "node_chain h p as" and "length as \<le> fuel"
    and "search_dirs env running name h fuel p n = Ret (found, m)"
  shows "n \<le> m \<and> m \<le> n + length as \<and> found \<noteq> Out_Of_Fuel \<and> (\<forall>a. found = Dir_Found a \<longrightarrow> a \<in> set as)"
  using search_returns [OF assms(1,2), of env running name n] assms(3) by auto

section \<open>The switch and the copy\<close>

text \<open>The events that lead to a copy: all but the five that only log or return.\<close>

definition event_kind :: "inotify_event \<Rightarrow> u32" where
  "event_kind ev = ie_mask ev AND (IN_ALL_EVENTS OR IN_Q_OVERFLOW OR IN_IGNORED)"

definition needs_copy :: "inotify_event \<Rightarrow> bool" where
  "needs_copy ev \<longleftrightarrow>
     event_kind ev \<notin> {IN_CLOSE_WRITE, IN_CLOSE_NOWRITE, IN_MOVED_FROM, IN_IGNORED, IN_Q_OVERFLOW}"

lemma nat_hex_length: "n < 16 ^ Suc k \<Longrightarrow> length (nat_hex n) \<le> Suc k"
proof (induction k arbitrary: n)
  case 0
  then show ?case by (simp add: nat_hex.simps [of n])
next
  case (Suc k)
  then have "n div 16 < 16 ^ Suc k" by auto
  with Suc.IH [OF this] show ?case by (simp add: nat_hex.simps [of n])
qed

lemma event_switch_copy:
  assumes "needs_copy ev"
  obtains m where "event_switch ev filename s = (Message m True, s)" and "length m \<le> length filename + 66"
proof -
  have "unat (ie_mask ev) < 16 ^ Suc 7" by (rule less_le_trans [OF unsigned_less]) simp
  then have hex: "length (nat_hex (unat (ie_mask ev))) \<le> Suc 7" by (rule nat_hex_length)
  have "\<exists>m. event_switch ev filename s = (Message m True, s) \<and> length m \<le> length filename + 66"
    using assms hex
    by (simp add: needs_copy_def event_kind_def event_switch_def Let_def HELPERS_FILE_def)
  then show thesis using that by blast
qed

definition slashed :: "string \<Rightarrow> string" where
  "slashed p = (if last p = HELPERS_SLASH then p else p @ [HELPERS_SLASH])"

lemma ends_in_slash_eq:
  "HELPERS_SLASH \<in> set p \<Longrightarrow> ends_in_slash p = Ret (last p = HELPERS_SLASH)"
  "HELPERS_SLASH \<notin> set p \<Longrightarrow> ends_in_slash p = Fault Null_Deref"
  by (cases "strrchr p HELPERS_SLASH", auto simp: ends_in_slash_def strrchr_length_1)

lemma slashed_eq: "p @ (if last p = HELPERS_SLASH then [] else ''/'') = slashed p"
  by (simp add: slashed_def HELPERS_SLASH_def)

lemma make_backup_runs:
  assumes "cstring (bc_path_to_backup (bk_conf s)) = Some b" and "HELPERS_SLASH \<in> set b"
    and "length path + length b < 3060"
  shows "backup_fs_make_backup path s
    = Ret (s\<lparr>bk_commands := bk_commands s @ [COPY_COMMAND @ '' '' @ path @ '' '' @ slashed b]\<rparr>)"
  using assms
  by (simp add: backup_fs_make_backup_def backup_get_path_to_backup_def ends_in_slash_eq sprintf_into_def
      backup_sizes COPY_COMMAND_def slashed_def HELPERS_SLASH_def)

section \<open>The handler on an event with a name\<close>

definition named_file :: "inotify_event \<Rightarrow> string \<Rightarrow> bool" where
  "named_file ev f \<longleftrightarrow> ie_mask ev AND IN_ISDIR = 0 \<and> ie_len ev \<noteq> 0 \<and> cstring (ie_name ev) = Some f
     \<and> f \<noteq> [] \<and> hd f \<noteq> HELPERS_DOT"

text \<open>What the configuration provides: readable paths, a slash in the backup path, a log.\<close>

definition paths_ok :: "bk_env \<Rightarrow> backup_conf \<Rightarrow> string \<Rightarrow> string \<Rightarrow> bool" where
  "paths_ok env c l b \<longleftrightarrow> backup_conf_wf c \<and> cstring (bc_path_to_log c) = Some l \<and> be_can_open env l
     \<and> cstring (bc_path_to_backup c) = Some b \<and> HELPERS_SLASH \<in> set b"

definition copy_command :: "string \<Rightarrow> string \<Rightarrow> string \<Rightarrow> string" where
  "copy_command dir f b = COPY_COMMAND @ '' '' @ slashed dir @ f @ '' '' @ slashed b"

lemma handle_event_copy:
  assumes "named_file ev f" and "needs_copy ev" and "paths_ok env (bk_conf s) l b"
    and "search_dirs env (bk_running s) f (bk_items s) (fcard (fmdom (bk_items s))) (ht_node (bk_table s))
           (bk_open_dirs s) = Ret (found, n)"
    and "s2 = (case found of Dir_Found a \<Rightarrow> s\<lparr>bk_open_dirs := n, bk_arg_dir := Item_Value a\<rparr>
               | _ \<Rightarrow> s\<lparr>bk_open_dirs := n\<rparr>)"
    and "found \<noteq> Dir_Missing" and "arg_path env s2 = Ret d" and "HELPERS_SLASH \<in> set d"
    and "length d + length f < 1000"
  shows "\<exists>line. handle_event env ev s = Ret (s2\<lparr>bk_files := append_line l line (bk_files s),
           bk_commands := bk_commands s @ [copy_command d f b]\<rparr>)"
proof -
  obtain m where sw: "event_switch ev f s2 = (Message m True, s2)" and len: "length m \<le> length f + 66"
    by (rule event_switch_copy [OF assms(2)])
  have s2: "bk_conf s2 = bk_conf s" "bk_files s2 = bk_files s" "bk_commands s2 = bk_commands s"
    by (cases found; simp add: assms(5))+
  define files where "files = append_line l m (bk_files s)"
  have log: "logger (be_can_open env) (bc_path_to_log (bk_conf s2)) (Some m) (bk_files s2) = Ret (LOGGER_NORMAL_EXIT, files)"
    using assms(3) by (simp add: logger_runs paths_ok_def s2 files_def)
  have arg: "arg_path env (s2\<lparr>bk_files := files\<rparr>) = Ret d"
    using assms(7) by (simp add: arg_path_def cong: dir_ref.case_cong)
  have b: "cstring (bc_path_to_backup (bk_conf (s2\<lparr>bk_files := files\<rparr>))) = Some b" "HELPERS_SLASH \<in> set b"
    using assms(3) by (simp_all add: paths_ok_def s2)
  have "length b < 2048"
    using assms(3) cstring_length [of "bc_path_to_backup (bk_conf s)" b]
    by (auto simp: paths_ok_def backup_conf_wf_def backup_sizes)
  then have mk: "backup_fs_make_backup (slashed d @ f) (s2\<lparr>bk_files := files\<rparr>)
      = Ret (s2\<lparr>bk_files := files, bk_commands := bk_commands s @ [copy_command d f b]\<rparr>)"
    using make_backup_runs [OF b, of "slashed d @ f"] assms(9)
    by (simp add: slashed_def copy_command_def s2)
  have "handle_event env ev s = Ret (s2\<lparr>bk_files := files, bk_commands := bk_commands s @ [copy_command d f b]\<rparr>)"
    using assms(1,4,6,9) sw len log arg mk assms(8)
    by (cases found)
       (simp_all add: handle_event_def named_file_def assms(5) sprintf_into_def backup_sizes ends_in_slash_eq
         slashed_eq [unfolded append_assoc] flip: append_assoc)
  then show ?thesis unfolding files_def by blast
qed

section \<open>Properties\<close>

text \<open>
  Claim C21: the search for a directory ends.  Walking back from the newest item of a well-formed
  table, \<open>while (hi)\<close> returns without touching freed memory after at most as many directories as
  the table has items, finds only items of the table, and the bound of the model on the number
  of rounds is never the reason it stops.
\<close>

theorem directory_search_ends:
  assumes "ht_inv t h as"
  shows "\<exists>found m. search_dirs env running name h (fcard (fmdom h)) (ht_node t) n = Ret (found, m)
     \<and> n \<le> m \<and> m \<le> n + length as \<and> found \<noteq> Out_Of_Fuel \<and> (\<forall>a. found = Dir_Found a \<longrightarrow> a \<in> set as)"
  using assms node_chain_fuel by (intro search_returns) (auto simp: ht_inv_def)

theorem directory_search_ends_witness:
  "\<exists>found m. search_dirs \<lparr>be_opendir = (\<lambda>_. Some []), be_can_open = (\<lambda>_. True), be_over = (\<lambda>_. [])\<rparr> True ''a''
      (fmupd 7 one_item fmempty) (fcard (fmdom (fmupd (7 :: addr) one_item fmempty))) (ht_node one_table) 0 = Ret (found, m)
     \<and> m \<le> 1 \<and> found \<noteq> Out_Of_Fuel"
  using directory_search_ends [OF one_table_inv, of
      "\<lparr>be_opendir = (\<lambda>_. Some []), be_can_open = (\<lambda>_. True), be_over = (\<lambda>_. [])\<rparr>" True "''a''" 0] by auto

text \<open>
  Claim C5: a change is copied.  For an event that calls for a copy, on a file whose name does
  not start with a dot, the handler takes the newest item of the table that is a directory with
  a regular file whose name contains the event's name, makes it the current directory, logs
  one line and runs exactly one copy command, from that directory to the backup directory.
  Every directory it looked into stays open.
\<close>

theorem event_copied_from_newest_dir:
  assumes "named_file ev f" and "needs_copy ev" and "paths_ok env (bk_conf s) l b" and "bk_running s"
    and "ht_inv (bk_table s) (bk_items s) (xs @ a # ys)"
    and "\<forall>x \<in> set xs. can_list env (bk_items s) x \<and> \<not> holds_file env (bk_items s) f x"
    and "can_list env (bk_items s) a" and "holds_file env (bk_items s) f a"
    and "HELPERS_SLASH \<in> set (path_of env (bk_items s) a)"
    and "length (path_of env (bk_items s) a) + length f < 1000"
  shows "\<exists>line. handle_event env ev s = Ret (s\<lparr>
     bk_open_dirs := bk_open_dirs s + length xs + 1,
     bk_arg_dir := Item_Value a,
     bk_files := append_line l line (bk_files s),
     bk_commands := bk_commands s @ [copy_command (path_of env (bk_items s) a) f b]\<rparr>)"
proof -
  have ch: "node_chain (bk_items s) (ht_node (bk_table s)) (xs @ a # ys)" "distinct (xs @ a # ys)"
    using assms(5) by (simp_all add: ht_inv_def)
  obtain it where "fmlookup (bk_items s) a = Some it" using ht_inv_item [OF assms(5), of a] by auto
  then have arg: "arg_path env (s\<lparr>bk_open_dirs := n, bk_arg_dir := Item_Value a\<rparr>) = Ret (path_of env (bk_items s) a)"
    for n by (simp add: arg_path_def path_of_def item_str_def value_of_def)
  show ?thesis
    using handle_event_copy [OF assms(1-3) _ refl _ _ assms(9,10)] assms(4) arg
      search_stops(2) [OF ch assms(6-8), of "bk_open_dirs s"] by simp
qed

text \<open>One directory, \<open>/ab\<close>, that holds the file \<open>xa.c\<close>.\<close>

definition sample_bk :: bk_state where
  "sample_bk = \<lparr>bk_running = True, bk_watched = 1, bk_arg_dir = Dir_Buffer, bk_table = one_table,
     bk_items = fmupd 7 one_item fmempty,
     bk_conf = \<lparr>bc_path_to_dir = padded HELPERS_BUF_SIZE ''/r/'', bc_path_to_backup = padded HELPERS_AVER_BUFFER_SIZE ''/bk'',
                bc_path_to_log = padded LOGGER_PATH_TO_LOG_LEN ''/l''\<rparr>,
     bk_files = Map.empty, bk_commands = [], bk_open_dirs = 0\<rparr>"

definition sample_bk_env :: bk_env where
  "sample_bk_env = \<lparr>be_opendir = (\<lambda>p. if p = ''/ab'' then Some [\<lparr>d_type = 8, d_name = ''xa.c''\<rparr>] else None),
     be_can_open = (\<lambda>_. True), be_over = (\<lambda>_. [])\<rparr>"

definition sample_change :: "u32 \<Rightarrow> string \<Rightarrow> inotify_event" where
  "sample_change m f = \<lparr>ie_wd = 1, ie_mask = m, ie_cookie = 0, ie_len = 16, ie_name = padded 16 f\<rparr>"

lemma sample_paths: "paths_ok sample_bk_env (bk_conf sample_bk) ''/l'' ''/bk''"
  by (simp add: paths_ok_def sample_bk_def sample_bk_env_def backup_conf_wf_def backup_sizes HELPERS_SLASH_def)

lemma sample_path_of: "path_of sample_bk_env (bk_items sample_bk) 7 = ''/ab''"
  by (simp add: path_of_def sample_bk_env_def sample_bk_def value_of_def one_item_def)

lemma sample_inv: "ht_inv (bk_table sample_bk) (bk_items sample_bk) ([] @ 7 # [])"
  using one_table_inv by (simp add: sample_bk_def)

lemma sample_named:
  "named_file (sample_change IN_CREATE ''a.c'') ''a.c''" "needs_copy (sample_change IN_CREATE ''a.c'')"
  "named_file (sample_change IN_DELETE ''z'') ''z''" "needs_copy (sample_change IN_DELETE ''z'')"
  by (simp_all add: named_file_def needs_copy_def event_kind_def sample_change_def inotify_bits HELPERS_DOT_def)

text \<open>The event is about \<open>a.c\<close>; its name is contained in \<open>xa.c\<close>, so \<open>/ab\<close> is taken.\<close>

theorem event_copied_from_newest_dir_witness:
  "\<exists>s'. handle_event sample_bk_env (sample_change IN_CREATE ''a.c'') sample_bk = Ret s'
     \<and> bk_commands s' = [''/bin/cp /ab/a.c /bk/''] \<and> bk_open_dirs s' = 1"
proof -
  have "can_list sample_bk_env (bk_items sample_bk) 7"
    unfolding can_list_def sample_path_of by (simp add: sample_bk_env_def)
  moreover have "holds_file sample_bk_env (bk_items sample_bk) ''a.c'' 7"
    unfolding holds_file_def sample_path_of
    by (simp add: sample_bk_env_def DT_REG_def sublist_code)
  moreover have "bk_running sample_bk" "bk_commands sample_bk = []" "bk_open_dirs sample_bk = 0"
    by (simp_all add: sample_bk_def)
  ultimately show ?thesis
    using event_copied_from_newest_dir [OF sample_named(1,2) sample_paths _ sample_inv, unfolded sample_path_of]
    by (auto simp: copy_command_def COPY_COMMAND_def slashed_def HELPERS_SLASH_def)
qed

text \<open>
  Claim C22: where events get lost.  The search stops for good at the first item that cannot be
  opened as a directory, and the table holds the regular files of the tree as well: if such an
  item comes before any directory with a matching file, the event is neither logged nor copied;
  only the directories opened so far stay open.  If every item is a directory and none has a
  match (the file was deleted), a copy is run nevertheless, from the directory of the event
  before.
\<close>

theorem event_lost_or_misplaced:
  assumes "named_file ev f" and "needs_copy ev" and "paths_ok env (bk_conf s) l b" and "bk_running s"
    and "ht_inv (bk_table s) (bk_items s) (xs @ ys)"
    and "\<forall>x \<in> set xs. can_list env (bk_items s) x \<and> \<not> holds_file env (bk_items s) f x"
    and "arg_path env s = Ret d" and "HELPERS_SLASH \<in> set d" and "length d + length f < 1000"
  shows "case ys of
      a # _ \<Rightarrow> \<not> can_list env (bk_items s) a \<longrightarrow>
         handle_event env ev s = Ret (s\<lparr>bk_open_dirs := bk_open_dirs s + length xs\<rparr>)
    | [] \<Rightarrow> \<exists>line. handle_event env ev s = Ret (s\<lparr>
         bk_open_dirs := bk_open_dirs s + length xs,
         bk_files := append_line l line (bk_files s),
         bk_commands := bk_commands s @ [copy_command d f b]\<rparr>)"
proof (cases ys)
  case Nil
  have ch: "node_chain (bk_items s) (ht_node (bk_table s)) xs" "distinct xs"
    using assms(5) by (simp_all add: ht_inv_def Nil)
  have "arg_path env (s\<lparr>bk_open_dirs := bk_open_dirs s + length xs\<rparr>) = Ret d"
    using assms(7) by (simp add: arg_path_def cong: dir_ref.case_cong)
  then show ?thesis
    using handle_event_copy [OF assms(1-3) _ refl _ _ assms(8,9)] assms(4) search_all [OF ch assms(6), of "bk_open_dirs s"]
    by (simp add: Nil)
next
  case (Cons a zs)
  have ch: "node_chain (bk_items s) (ht_node (bk_table s)) (xs @ a # zs)" "distinct (xs @ a # zs)"
    using assms(5) by (simp_all add: ht_inv_def Cons)
  show ?thesis
    using assms(1,4) search_stops(1) [OF ch assms(6), of "bk_open_dirs s"]
    by (simp add: Cons handle_event_def named_file_def)
qed

theorem event_lost_or_misplaced_witness:
  "handle_event (sample_bk_env\<lparr>be_opendir := \<lambda>_. None\<rparr>) (sample_change IN_DELETE ''z'') sample_bk = Ret sample_bk
   \<and> (\<exists>s'. handle_event sample_bk_env (sample_change IN_DELETE ''z'') sample_bk = Ret s'
        \<and> bk_commands s' = [''/bin/cp /r/z /bk/''])"
proof
  let ?env = "sample_bk_env\<lparr>be_opendir := \<lambda>_. None\<rparr>"
  have arg: "arg_path env sample_bk = Ret ''/r/''" for env
    by (simp add: arg_path_def sample_bk_def backup_sizes)
  have paths: "paths_ok ?env (bk_conf sample_bk) ''/l'' ''/bk''" using sample_paths by (simp add: paths_ok_def)
  have run: "bk_running sample_bk" "bk_open_dirs sample_bk = 0" "bk_commands sample_bk = []"
    by (simp_all add: sample_bk_def)
  have "\<not> can_list ?env (bk_items sample_bk) 7" by (simp add: can_list_def)
  moreover have "sample_bk\<lparr>bk_open_dirs := 0\<rparr> = sample_bk" by (simp add: sample_bk_def)
  ultimately show "handle_event ?env (sample_change IN_DELETE ''z'') sample_bk = Ret sample_bk"
    using event_lost_or_misplaced [OF sample_named(3,4) paths run(1) sample_inv _ arg] run
    by (simp add: HELPERS_SLASH_def)
  have "can_list sample_bk_env (bk_items sample_bk) 7 \<and> \<not> holds_file sample_bk_env (bk_items sample_bk) ''z'' 7"
    unfolding can_list_def holds_file_def sample_path_of by (simp add: sample_bk_env_def sublist_code)
  then show "\<exists>s'. handle_event sample_bk_env (sample_change IN_DELETE ''z'') sample_bk = Ret s'
        \<and> bk_commands s' = [''/bin/cp /r/z /bk/'']"
    using event_lost_or_misplaced [OF sample_named(3,4) sample_paths run(1), of "[7]" "[]" "''/r/''"] sample_inv arg run
    by (auto simp: HELPERS_SLASH_def copy_command_def COPY_COMMAND_def slashed_def)
qed

end
