(* ===== verification/Inotify.thy ===== *)
theory Inotify
  imports Backup_Events
begin

text \<open>
  The inotify side of \<open>services/backup_service/helpers_backup_common.c\<close>: reading the events
  of the kernel into the queue, draining the queue through the handler, the loop around them
  and the thread function.  Results of system calls are arguments; \<open>malloc\<close> is a function of
  the heap, so that its results can be required to be unused addresses.
\<close>

definition HELPERS_NORMAL_EXIT :: int where "HELPERS_NORMAL_EXIT = 0"
definition HELPERS_INVALID_EXIT :: int where "HELPERS_INVALID_EXIT = -1"
definition HELPERS_10_SEC :: nat where "HELPERS_10_SEC = 10000"

section \<open>The flag and the mutex\<close>

definition backup_signal_handler :: "bk_env \<Rightarrow> bk_state \<Rightarrow> bk_state outcome" where
  "backup_signal_handler env s =
     obind (logger (be_can_open env) (bc_path_to_log (bk_conf s))
              (Some ''SIGINT signal handled, the \"backup\" program is terminated!'') (bk_files s))
       (\<lambda>(_, files). Ret (s\<lparr>bk_files := files, bk_running := False\<rparr>))"

lemma signal_handler_runs:
  "cstring (bc_path_to_log (bk_conf s)) = Some l \<Longrightarrow>
     \<exists>files. backup_signal_handler env s = Ret (s\<lparr>bk_files := files, bk_running := False\<rparr>)"
  by (cases s) (simp add: backup_signal_handler_def logger_runs)

definition helpers_get_backup_keep_running :: "bk_state \<Rightarrow> int" where
  "helpers_get_backup_keep_running s = (if bk_running s then 1 else 0)"

datatype lock_end = Locked | Lock_Timeout | Lock_Failed | Lock_Stopped

text \<open>
  The attempts from the \<open>k\<close>th on; \<open>total_sleep\<close> is 100 microseconds per attempt.  \<open>running k\<close> is
  the flag before the attempt, \<open>trylock k\<close> its result (16 is \<open>EBUSY\<close>).
\<close>

function helpers_mutex_trylock :: "(nat \<Rightarrow> bool) \<Rightarrow> (nat \<Rightarrow> int) \<Rightarrow> nat \<Rightarrow> lock_end" where
  "helpers_mutex_trylock running trylock k =
     (if \<not> running k then Lock_Stopped
      else if trylock k = 0 then Locked
      else if trylock k = 16 then
        (if (100 * (k + 1)) mod HELPERS_10_SEC = 0 then Lock_Timeout
         else helpers_mutex_trylock running trylock (k + 1))
      else Lock_Failed)"
  by pat_completeness auto
termination
proof (relation "measure (\<lambda>(running, trylock, k). 100 - k mod 100)", goal_cases)
  case 1
  then show ?case by simp
next
  case (2 running trylock k)
  have "(100 * (k + 1)) mod 10000 = 100 * ((k + 1) mod 100)"
    using mult_mod_right [of 100 "k + 1" 100] by simp
  with 2 have "Suc k mod 100 \<noteq> 0" by (simp add: HELPERS_10_SEC_def)
  moreover have "k mod 100 < 100" by simp
  ultimately show ?case by (simp add: mod_Suc split: if_splits)
qed

declare helpers_mutex_trylock.simps [simp del]

section \<open>The inotify descriptor and the watches\<close>

definition close_inotify_fd :: "int \<Rightarrow> bk_state \<Rightarrow> int \<times> bk_state" where
  "close_inotify_fd r s = (if r < 0 then (HELPERS_INVALID_EXIT, s) else (r, s\<lparr>bk_watched := 0\<rparr>))"

text \<open>The static descriptor, and what \<open>inotify_init\<close> returns when it is called.\<close>

definition open_inotify_fd :: "int \<Rightarrow> int \<Rightarrow> int \<times> int" where
  "open_inotify_fd inotify_init fd =
     (if fd \<noteq> 0 then (fd, fd)
      else if inotify_init \<le> HELPERS_NORMAL_EXIT then (HELPERS_INVALID_EXIT, inotify_init)
      else (inotify_init, inotify_init))"

definition watch_mask :: nat where "watch_mask = 0xFC6"

definition watch_dir :: "bk_env \<Rightarrow> int \<Rightarrow> string option \<Rightarrow> nat \<Rightarrow> bk_state \<Rightarrow> (int \<times> bk_state) outcome" where
  "watch_dir env wd dirname msk s =
     (case dirname of None \<Rightarrow> Ret (HELPERS_INVALID_EXIT, s)
      | Some dir \<Rightarrow>
          if wd < 0 then
            obind (sprintf_into HELPERS_AVER_BUFFER_SIZE
                     (''Cannot add watch for \"'' @ dir @ ''\" with event mask '' @ nat_hex msk))
              (\<lambda>_. Ret (HELPERS_INVALID_EXIT, s))
          else
            let s1 = s\<lparr>bk_watched := bk_watched s + 1\<rparr> in
            obind (sprintf_into HELPERS_AVER_BUFFER_SIZE
                     (''Watching '' @ dir @ '' WD='' @ int_dec wd @ ''; Watching = '' @
                      int_dec (sint (bk_watched s1)) @ '' items'')) (\<lambda>message_buffer.
            obind (logger (be_can_open env) (bc_path_to_log (bk_conf s1)) (Some message_buffer) (bk_files s1))
              (\<lambda>(_, files). Ret (wd, s1\<lparr>bk_files := files\<rparr>))))"

section \<open>Reading events\<close>

text \<open>
  What the next \<open>poll\<close> answers; with \<open>POLLIN\<close>, also what the read after it delivers (at most
  16384 bytes; \<^term>\<open>None\<close> when it fails).  A list of these lasts until SIGINT.
\<close>

datatype poll_result = Poll_Error | Poll_Timeout | Poll_Other | Poll_In "string option"

fun event_check :: "poll_result list \<Rightarrow> int \<times> poll_result list" where
  "event_check [] = (HELPERS_INVALID_EXIT, [])"
| "event_check (Poll_Timeout # ps) = event_check ps"
| "event_check (Poll_In r # ps) = (1, Poll_In r # ps)"
| "event_check (Poll_Error # ps) = (HELPERS_INVALID_EXIT, ps)"
| "event_check (Poll_Other # ps) = (HELPERS_INVALID_EXIT, ps)"

text \<open>\<open>struct inotify_event\<close> at the front of a block: four words, then \<open>len\<close> bytes of name.\<close>

definition event_at :: "string \<Rightarrow> inotify_event" where
  "event_at mem =
     \<lparr>ie_wd = le32_of mem, ie_mask = le32_of (drop 4 mem), ie_cookie = le32_of (drop 8 mem),
      ie_len = le32_of (drop 12 mem), ie_name = take (unat (le32_of (drop 12 mem))) (drop 16 mem)\<rparr>"

type_synonym q_malloc = "qheap \<Rightarrow> addr option"

function read_loop ::
  "q_malloc \<Rightarrow> bool \<Rightarrow> string \<Rightarrow> nat \<Rightarrow> int \<Rightarrow> addr option \<Rightarrow> qheap \<Rightarrow> (int \<times> qheap) outcome" where
  "read_loop malloc running buffer buffer_i cnt q h =
     (if \<not> (buffer_i < length buffer \<and> running) then Ret (cnt, h)
      else if length buffer < buffer_i + 16 then Fault Uninit_Read
      else
        let pevent = event_at (drop buffer_i buffer);
            event_size = 16 + unat (ie_len pevent)
        in if length buffer < buffer_i + event_size then Fault Uninit_Read
           else
             (case malloc h of
                None \<Rightarrow> Fault Null_Deref
              | Some event \<Rightarrow>
                  obind (queue_enqueue (Some event) q (put_entry event \<lparr>next_ptr = None, inot_ev = pevent\<rparr> h))
                    (\<lambda>h1. read_loop malloc running buffer (buffer_i + event_size) (cnt + 1) q h1)))"
  by pat_completeness auto
termination
  by (relation "measure (\<lambda>(malloc, running, buffer, i, cnt, q, h). length buffer - i)") auto

declare read_loop.simps [simp del]

definition read_events ::
  "q_malloc \<Rightarrow> bool \<Rightarrow> string option \<Rightarrow> addr option \<Rightarrow> qheap \<Rightarrow> (int \<times> qheap) outcome" where
  "read_events malloc running r q h =
     (case r of None \<Rightarrow> Ret (HELPERS_INVALID_EXIT, h)
      | Some buffer \<Rightarrow>
          if buffer = [] then Ret (HELPERS_INVALID_EXIT, h)
          else read_loop malloc running buffer 0 0 q h)"

section \<open>Draining the queue\<close>

lemma queue_dequeue_fewer:
  assumes "queue_dequeue q h = Ret (Some a, h1)"
  shows "fcard (fmdom (qentries (free_entry a h1))) < fcard (fmdom (qentries h))"
proof -
  from assms obtain e x where "fmlookup (qentries h) a = Some e" "qentries h1 = fmupd a x (qentries h)"
    by (auto simp: queue_dequeue_def queue_defs c_simps Let_def split: option.splits)
  then show ?thesis using fcard_fmdrop_less [of "qentries h" a e x] by (simp add: free_entry_def)
qed

function process_handle_events ::
  "bk_env \<Rightarrow> addr option \<Rightarrow> qheap \<Rightarrow> bk_state \<Rightarrow> (qheap \<times> bk_state) outcome" where
  "process_handle_events env q h s =
     obind (queue_empty q h) (\<lambda>empty.
       if empty then Ret (h, s)
       else
         obind (queue_dequeue q h) (\<lambda>(event, h1).
           case event of
             None \<Rightarrow> Fault Null_Deref
           | Some a \<Rightarrow>
               obind (entry_at (Some a) h1) (\<lambda>(_, e).
               obind (handle_event env (inot_ev e) s) (\<lambda>s1.
                 process_handle_events env q (free_entry a h1) s1))))"
  by pat_completeness auto
termination
  by (relation "measure (\<lambda>(env, q, h, s). fcard (fmdom (qentries h)))") (auto dest: queue_dequeue_fewer)

declare process_handle_events.simps [simp del]

section \<open>The loop and the thread\<close>

lemma event_check_shorter:
  "ps \<noteq> [] \<Longrightarrow> fst (event_check ps) \<le> 0 \<Longrightarrow> length (snd (event_check ps)) < length ps"
  "snd (event_check ps) = Poll_In rd # qs \<Longrightarrow> length qs < length ps"
proof (induction ps rule: event_check.induct)
  case (2 ps)
  { case 1
    then show ?case using 2 by (cases "ps = []") auto
  next
    case 2
    then show ?case using 2 "2.IH" by auto }
qed auto

text \<open>
  The loop, up to SIGINT (the end of the list); the handler of the signal is not part of it.
\<close>

function process_inotify_events ::
  "bk_env \<Rightarrow> q_malloc \<Rightarrow> addr option \<Rightarrow> poll_result list \<Rightarrow> int \<Rightarrow> qheap \<Rightarrow> bk_state \<Rightarrow>
     (int \<times> qheap \<times> bk_state) outcome" where
  "process_inotify_events env malloc q ps rc h s =
     (if \<not> (bk_running s \<and> bk_watched s > 0) \<or> ps = [] then Ret (rc, h, s)
      else if fst (event_check ps) > 0 then
        (case snd (event_check ps) of
           Poll_In rd # qs \<Rightarrow>
             obind (read_events malloc (bk_running s) rd q h) (\<lambda>(rc1, h1).
               if rc1 < 0 then Ret (rc1, h1, s)
               else obind (process_handle_events env q h1 s) (\<lambda>(h2, s1).
                      process_inotify_events env malloc q qs rc1 h2 s1))
         | _ \<Rightarrow> Ret (rc, h, s))
      else process_inotify_events env malloc q (snd (event_check ps)) rc h s)"
  by pat_completeness auto
termination
  by (relation "measure (\<lambda>(env, malloc, q, ps, rc, h, s). length ps)")
     (auto simp: event_check_shorter)

declare process_inotify_events.simps [simp del]

text \<open>
  The thread: \<open>fd\<close> and \<open>queue\<close> are its static variables, the results of \<open>inotify_init\<close>,
  \<open>inotify_add_watch\<close> and \<open>close\<close> arguments.  Neither static variable is reset.
\<close>

definition arg_dirname :: "bk_env \<Rightarrow> bk_state \<Rightarrow> string option outcome" where
  "arg_dirname env s =
     (if bk_arg_dir s = No_Dir then Ret None else obind (arg_path env s) (\<lambda>d. Ret (Some d)))"

definition pthread_on_dir_run ::
  "bk_env \<Rightarrow> q_malloc \<Rightarrow> q_malloc \<Rightarrow> int \<Rightarrow> int \<Rightarrow> poll_result list \<Rightarrow> int \<Rightarrow>
     int \<times> addr option \<Rightarrow> qheap \<Rightarrow> bk_state \<Rightarrow> ((int \<times> addr option) \<times> qheap \<times> bk_state) outcome" where
  "pthread_on_dir_run env malloc q_struct_malloc init wd ps closed statics h s =
     (case statics of (fd, queue) \<Rightarrow>
      obind
        (if fst (open_inotify_fd init fd) > 0 then
           obind (if queue = None then obind (queue_create (q_struct_malloc h) h) (\<lambda>(a, h1). Ret (Some a, h1))
                  else Ret (queue, h)) (\<lambda>(q, h1).
           obind (arg_dirname env s) (\<lambda>dirname.
           obind (watch_dir env wd dirname watch_mask s) (\<lambda>(wd1, s1).
             if wd1 > 0 then
               obind (process_inotify_events env malloc q ps HELPERS_NORMAL_EXIT h1 s1) (\<lambda>(rc, h2, s2).
                 if rc = HELPERS_INVALID_EXIT then Ret (q, h2, s2)
                 else Ret (q, h2, snd (close_inotify_fd closed s2)))
             else Ret (q, h1, snd (close_inotify_fd closed s1)))))
         else Ret (queue, h, s))
        (\<lambda>(q, h1, s1).
           obind (queue_destroy q h1) (\<lambda>h2. Ret ((snd (open_inotify_fd init fd), q), h2, s1))))"

section \<open>Events in memory\<close>

definition event_bytes :: "inotify_event \<Rightarrow> string" where
  "event_bytes ev =
     le32_bytes (ie_wd ev) @ le32_bytes (ie_mask ev) @ le32_bytes (ie_cookie ev) @ le32_bytes (ie_len ev) @ ie_name ev"

definition wf_event :: "inotify_event \<Rightarrow> bool" where
  "wf_event ev \<longleftrightarrow> length (ie_name ev) = unat (ie_len ev)"

lemma event_bytes_length: "wf_event ev \<Longrightarrow> length (event_bytes ev) = 16 + unat (ie_len ev)"
  by (simp add: event_bytes_def wf_event_def)

lemma event_at_bytes: "wf_event ev \<Longrightarrow> event_at (event_bytes ev @ rest) = ev"
proof -
  assume "wf_event ev"
  moreover have "drop 4 (event_bytes ev @ rest) = le32_bytes (ie_mask ev) @ le32_bytes (ie_cookie ev) @
      le32_bytes (ie_len ev) @ ie_name ev @ rest"
    and "drop 8 (event_bytes ev @ rest) = le32_bytes (ie_cookie ev) @ le32_bytes (ie_len ev) @ ie_name ev @ rest"
    and "drop 12 (event_bytes ev @ rest) = le32_bytes (ie_len ev) @ ie_name ev @ rest"
    and "drop 16 (event_bytes ev @ rest) = ie_name ev @ rest"
    by (simp_all add: event_bytes_def)
  ultimately show ?thesis
    by (simp add: event_at_def wf_event_def) (simp add: event_bytes_def)
qed

text \<open>\<open>malloc\<close> succeeds with an address that is not in use.\<close>

definition malloc_ok :: "q_malloc \<Rightarrow> bool" where
  "malloc_ok malloc \<longleftrightarrow> (\<forall>h. \<exists>a. malloc h = Some a \<and> fmlookup (qentries h) a = None)"

lemma queue_rep_put_fresh:
  "queue_rep h qa as \<Longrightarrow> a \<notin> set as \<Longrightarrow> queue_rep (put_entry a e h) qa as"
  by (auto simp: queue_rep_def put_entry_def chain_upd_other split: option.splits)

lemma queue_rep_free:
  "queue_rep h qa as \<Longrightarrow> a \<notin> set as \<Longrightarrow> queue_rep (free_entry a h) qa as"
  by (auto simp: queue_rep_def free_entry_def chain_drop_other split: option.splits)

lemma payload_put: "payload (put_entry a e h) b = (if b = a then Some (inot_ev e) else payload h b)"
  by (simp add: payload_def put_entry_def)

lemma payload_None: "payload h a = None \<longleftrightarrow> fmlookup (qentries h) a = None"
  by (simp add: payload_def)

text \<open>The kernel's bytes become queue entries with exactly these events.\<close>

lemma read_loop_events:
  assumes "malloc_ok malloc" and "\<forall>ev \<in> set evs. wf_event ev" and "queue_rep h qa as"
    and "buffer = pre @ concat (map event_bytes evs)"
  shows "\<exists>h' new. read_loop malloc True buffer (length pre) cnt (Some qa) h = Ret (cnt + int (length evs), h')
     \<and> queue_rep h' qa (as @ new) \<and> map (payload h') new = map Some evs
     \<and> (\<forall>a. a \<notin> set new \<longrightarrow> payload h' a = payload h a) \<and> (\<forall>a \<in> set new. payload h a = None)"
  using assms(2-4)
proof (induction evs arbitrary: pre cnt h as)
  case Nil
  then show ?case by (intro exI [of _ h] exI [of _ "[]"]) (simp add: read_loop.simps)
next
  case (Cons ev evs)
  have wf: "wf_event ev" using Cons.prems(1) by simp
  obtain a where a: "malloc h = Some a" "fmlookup (qentries h) a = None"
    using assms(1) by (auto simp: malloc_ok_def)
  have new: "a \<notin> set as" using Cons.prems(2) a(2) queue_rep_payload payload_None by metis
  let ?h0 = "put_entry a \<lparr>next_ptr = None, inot_ev = ev\<rparr> h"
  have "payload ?h0 a = Some ev" by (simp add: payload_put)
  from evq.enq_rep [OF queue_rep_put_fresh [OF Cons.prems(2) new] new this]
  obtain h1 where h1: "queue_enqueue (Some a) (Some qa) ?h0 = Ret h1" "queue_rep h1 qa (as @ [a])"
    "payload h1 = payload ?h0" by blast
  have "buffer = (pre @ event_bytes ev) @ concat (map event_bytes evs)" using Cons.prems(3) by simp
  from Cons.IH [OF _ h1(2) this, of "cnt + 1"] Cons.prems(1)
  obtain h' new' where IH: "read_loop malloc True buffer (length (pre @ event_bytes ev)) (cnt + 1) (Some qa) h1
        = Ret (cnt + 1 + int (length evs), h')"
    "queue_rep h' qa ((as @ [a]) @ new')" "map (payload h') new' = map Some evs"
    "\<forall>b. b \<notin> set new' \<longrightarrow> payload h' b = payload h1 b" "\<forall>b \<in> set new'. payload h1 b = None" by auto
  have at: "event_at (drop (length pre) buffer) = ev"
    using wf Cons.prems(3) by (simp add: event_at_bytes)
  have len: "length pre + 16 + unat (ie_len ev) \<le> length buffer"
    and nxt: "length pre + (16 + unat (ie_len ev)) = length (pre @ event_bytes ev)"
    using Cons.prems(3) event_bytes_length [OF wf] by simp_all
  have "read_loop malloc True buffer (length pre) cnt (Some qa) h
      = read_loop malloc True buffer (length (pre @ event_bytes ev)) (cnt + 1) (Some qa) h1"
    using a len h1(1) unfolding nxt [symmetric]
    by (subst read_loop.simps) (simp add: at Let_def)
  moreover have "a \<notin> set new'" using IH(5) by (auto simp: h1(3) payload_put)
  moreover have "\<forall>b \<in> set new'. payload h b = None"
  proof
    fix b assume "b \<in> set new'"
    with IH(5) \<open>a \<notin> set new'\<close> show "payload h b = None" by (auto simp: h1(3) payload_put split: if_splits)
  qed
  moreover have "payload h a = None" using a(2) by (simp add: payload_None)
  moreover have "payload h' a = Some ev" using IH(4) \<open>a \<notin> set new'\<close> by (simp add: h1(3) payload_put)
  ultimately show ?case
    using IH by (intro exI [of _ h'] exI [of _ "a # new'"]) (auto simp: h1(3) payload_put)
qed

section \<open>Draining\<close>

text \<open>The handler run over a list of events, in order, until one of them faults.\<close>

fun handle_all :: "bk_env \<Rightarrow> inotify_event list \<Rightarrow> bk_state \<Rightarrow> bk_state outcome" where
  "handle_all env [] s = Ret s"
| "handle_all env (ev # evs) s = obind (handle_event env ev s) (handle_all env evs)"

text \<open>The same, with the heap added to the result.\<close>

definition with_heap :: "qheap \<Rightarrow> bk_state outcome \<Rightarrow> (qheap \<times> bk_state) outcome" where
  "with_heap h m = obind m (\<lambda>s. Ret (h, s))"

lemma entry_of_payload: "payload h a = Some ev \<Longrightarrow> \<exists>e. entry_at (Some a) h = Ret (a, e) \<and> inot_ev e = ev"
  by (auto simp: payload_def entry_at_def)

lemma payload_free: "payload (free_entry a h) b = (if b = a then None else payload h b)"
  by (simp add: payload_def free_entry_def)

text \<open>
  Draining a queue runs the handler over its events in order; afterwards the queue is empty,
  its entries are freed, and every other entry has its event still.
\<close>

lemma process_handle_events_all:
  assumes "queue_rep h qa as" and "map (payload h) as = map Some evs"
  shows "\<exists>h'. process_handle_events env (Some qa) h s = with_heap h' (handle_all env evs s)
     \<and> queue_rep h' qa [] \<and> (\<forall>a. payload h' a = (if a \<in> set as then None else payload h a))"
  using assms
proof (induction as arbitrary: h evs s)
  case Nil
  have "queue_empty (Some qa) h = Ret True" using evq.isempty_rep [OF Nil(1)] by simp
  with Nil show ?case
    by (intro exI [of _ h]) (simp add: process_handle_events.simps with_heap_def)
next
  case (Cons a as)
  obtain ev evs' where evs: "evs = ev # evs'" "payload h a = Some ev" "map (payload h) as = map Some evs'"
    using Cons.prems(2) by (cases evs) auto
  obtain h1 where h1: "queue_dequeue (Some qa) h = Ret (Some a, h1)" "queue_rep h1 qa as" "payload h1 = payload h"
    using evq.deq_cons [OF Cons.prems(1)] by blast
  obtain e where e: "entry_at (Some a) h1 = Ret (a, e)" "inot_ev e = ev"
    using entry_of_payload evs(2) h1(3) by metis
  have a: "a \<notin> set as" using Cons.prems(1) by (auto elim: queue_repE)
  let ?h = "free_entry a h1"
  have "map (payload ?h) as = map (payload h) as"
    using a by (intro map_cong) (auto simp: payload_free h1(3))
  with evs(3) have "map (payload ?h) as = map Some evs'" by simp
  note IH = Cons.IH [OF queue_rep_free [OF h1(2) a] this]
  have "queue_empty (Some qa) h = Ret False" using evq.isempty_rep [OF Cons.prems(1)] by simp
  then have step: "process_handle_events env (Some qa) h s
      = obind (handle_event env ev s) (process_handle_events env (Some qa) ?h)"
    by (subst process_handle_events.simps) (simp add: h1(1) e)
  obtain s0 where s0: "\<And>s1. handle_event env ev s = Ret s1 \<Longrightarrow> s0 = s1" by (cases "handle_event env ev s") auto
  obtain h' where h': "process_handle_events env (Some qa) ?h s0 = with_heap h' (handle_all env evs' s0)"
    "queue_rep h' qa []" "\<forall>b. payload h' b = (if b \<in> set as then None else payload ?h b)"
    using IH by blast
  have "process_handle_events env (Some qa) h s = with_heap h' (handle_all env evs s)"
    using h'(1) s0 by (cases "handle_event env ev s") (simp_all add: step evs(1) with_heap_def)
  with h'(2,3) show ?case
    by (intro exI [of _ h']) (simp add: payload_free h1(3))
qed

section \<open>The loop\<close>

text \<open>What no event changes: the flag, the table with its items, and the configuration.\<close>

definition same_setup :: "bk_state \<Rightarrow> bk_state \<Rightarrow> bool" where
  "same_setup s s' \<longleftrightarrow> bk_running s' = bk_running s \<and> bk_table s' = bk_table s \<and> bk_items s' = bk_items s
     \<and> bk_conf s' = bk_conf s"

lemma same_setup_refl [simp]: "same_setup s s"
  by (simp add: same_setup_def)

lemma same_setup_trans: "same_setup s s1 \<Longrightarrow> same_setup s1 s2 \<Longrightarrow> same_setup s s2"
  by (simp add: same_setup_def)

lemma event_switch_setup: "same_setup t (snd (event_switch ev filename t))"
  by (simp add: event_switch_def Let_def same_setup_def)

text \<open>
  All an event does: it may move the current directory to an item of the table, open directory
  streams (at most one for each item), log, count a removed watch, and run one copy command.
\<close>

definition copies :: "string list \<Rightarrow> string list \<Rightarrow> bool" where
  "copies cs cs' \<longleftrightarrow> cs' = cs \<or> (\<exists>path dir. cs' = cs @ [COPY_COMMAND @ '' '' @ path @ '' '' @ dir])"

definition event_effect :: "addr list \<Rightarrow> bk_state \<Rightarrow> bk_state \<Rightarrow> bool" where
  "event_effect as s s' \<longleftrightarrow> same_setup s s' \<and>
     (bk_arg_dir s' = bk_arg_dir s \<or> (\<exists>a \<in> set as. bk_arg_dir s' = Item_Value a)) \<and>
     bk_open_dirs s \<le> bk_open_dirs s' \<and> bk_open_dirs s' \<le> bk_open_dirs s + length as \<and>
     copies (bk_commands s) (bk_commands s')"

lemma event_switch_effect: "event_effect as s t \<Longrightarrow> event_effect as s (snd (event_switch ev filename t))"
  by (simp add: event_switch_def Let_def event_effect_def same_setup_def)

lemma make_backup_effect:
  "event_effect as s t \<Longrightarrow> bk_commands t = bk_commands s \<Longrightarrow> ensures (event_effect as s) (backup_fs_make_backup path t)"
  unfolding backup_fs_make_backup_def
  by (intro ensures_rules) (auto simp: event_effect_def same_setup_def copies_def sprintf_into_def split: if_splits)

lemma event_switch_commands [simp]: "bk_commands (snd (event_switch ev filename t)) = bk_commands t"
  by (simp add: event_switch_def Let_def)

lemma switch_end_ensures:
  "(r = Return_Now \<Longrightarrow> ensures P m) \<Longrightarrow> (\<And>x y. r = Message x y \<Longrightarrow> ensures P (g x y)) \<Longrightarrow>
     ensures P (case r of Return_Now \<Rightarrow> m | Message x y \<Rightarrow> g x y)"
  by (cases r) auto

lemma handle_event_effect:
  assumes "ht_inv (bk_table s) (bk_items s) as"
  shows "ensures (event_effect as s) (handle_event env ev s)"
proof -
  have ch: "node_chain (bk_items s) (ht_node (bk_table s)) as" "length as \<le> fcard (fmdom (bk_items s))"
    using assms node_chain_fuel by (auto simp: ht_inv_def)
  have eff: "bk_open_dirs s \<le> snd r \<and> snd r \<le> bk_open_dirs s + length as \<and> (\<forall>a. fst r = Dir_Found a \<longrightarrow> a \<in> set as)"
    if "search_dirs env (bk_running s) name (bk_items s) (fcard (fmdom (bk_items s))) (ht_node (bk_table s)) (bk_open_dirs s)
          = Ret r" for r name
  proof (cases r)
    case (Pair f n)
    from search_effect [OF ch that [unfolded Pair]] Pair show ?thesis by simp
  qed
  have plain: "event_effect as s (s\<lparr>bk_open_dirs := snd r\<rparr>)"
    if "search_dirs env (bk_running s) name (bk_items s) (fcard (fmdom (bk_items s))) (ht_node (bk_table s)) (bk_open_dirs s)
          = Ret r" for r name
    using eff [OF that] by (simp add: event_effect_def same_setup_def copies_def)
  have found: "event_effect as s (case fst r of Dir_Found a \<Rightarrow> s\<lparr>bk_open_dirs := snd r, bk_arg_dir := Item_Value a\<rparr>
      | _ \<Rightarrow> s\<lparr>bk_open_dirs := snd r\<rparr>)"
    if "search_dirs env (bk_running s) name (bk_items s) (fcard (fmdom (bk_items s))) (ht_node (bk_table s)) (bk_open_dirs s)
          = Ret r" for r name
  proof (cases "fst r")
    case (Dir_Found a)
    with eff [OF that] show ?thesis by (simp add: event_effect_def same_setup_def copies_def)
  qed (use plain [OF that] in simp_all)
  have cmds: "bk_commands (case f of Dir_Found a \<Rightarrow> s\<lparr>bk_open_dirs := n, bk_arg_dir := Item_Value a\<rparr>
      | _ \<Rightarrow> s\<lparr>bk_open_dirs := n\<rparr>) = bk_commands s" for f n by (cases f) simp_all
  have files: "event_effect as s t \<Longrightarrow> event_effect as s (t\<lparr>bk_files := fs\<rparr>)" for t fs
    by (simp add: event_effect_def same_setup_def)
  show ?thesis
    unfolding handle_event_def Let_def
    by (intro ensures_rules switch_end_ensures make_backup_effect files event_switch_effect found)
       (assumption | erule plain | simp add: cmds event_effect_def same_setup_def copies_def)+
qed

lemma handle_event_setup: "handle_event env ev s = Ret s' \<Longrightarrow> same_setup s s'"
proof -
  have found: "same_setup s (case f of Dir_Found a \<Rightarrow> s\<lparr>bk_open_dirs := n, bk_arg_dir := Item_Value a\<rparr>
      | _ \<Rightarrow> s\<lparr>bk_open_dirs := n\<rparr>)" for f n
    by (cases f) (simp_all add: same_setup_def)
  have switch: "same_setup s (snd (event_switch ev fn (case f of Dir_Found a \<Rightarrow> s\<lparr>bk_open_dirs := n, bk_arg_dir := Item_Value a\<rparr>
      | _ \<Rightarrow> s\<lparr>bk_open_dirs := n\<rparr>)))" for f n fn
    by (rule same_setup_trans [OF found event_switch_setup])
  have files: "same_setup s t \<Longrightarrow> same_setup s (t\<lparr>bk_files := fs\<rparr>)" for t fs
    by (simp add: same_setup_def)
  have copy: "same_setup s t \<Longrightarrow> ensures (same_setup s) (backup_fs_make_backup path t)" for t path
    unfolding backup_fs_make_backup_def by (intro ensures_rules) (simp add: same_setup_def)
  have "ensures (same_setup s) (handle_event env ev s)"
    unfolding handle_event_def Let_def
    by (intro ensures_rules switch_end_ensures copy files switch) (simp_all add: same_setup_def)
  then show "handle_event env ev s = Ret s' \<Longrightarrow> same_setup s s'"
    by (rule ensuresD)
qed

lemma handle_all_setup: "handle_all env evs s = Ret s' \<Longrightarrow> same_setup s s'"
  by (induction evs arbitrary: s) (auto simp: c_simps dest: handle_event_setup intro: same_setup_trans)

text \<open>
  What the kernel delivers: timeouts and failed polls apart, the blocks that the reads return
  are the events of the batches, one block per batch.
\<close>

fun delivers :: "poll_result list \<Rightarrow> inotify_event list list \<Rightarrow> bool" where
  "delivers [] bs \<longleftrightarrow> bs = []"
| "delivers (Poll_In r # ps) bs \<longleftrightarrow>
     (case bs of [] \<Rightarrow> False
      | evs # rest \<Rightarrow> evs \<noteq> [] \<and> (\<forall>ev \<in> set evs. wf_event ev) \<and>
          r = Some (concat (map event_bytes evs)) \<and> delivers ps rest)"
| "delivers (Poll_Timeout # ps) bs \<longleftrightarrow> delivers ps bs"
| "delivers (Poll_Error # ps) bs \<longleftrightarrow> delivers ps bs"
| "delivers (Poll_Other # ps) bs \<longleftrightarrow> delivers ps bs"

text \<open>The batches handled one after the other, as long as something is watched.\<close>

fun handle_batches :: "bk_env \<Rightarrow> inotify_event list list \<Rightarrow> bk_state \<Rightarrow> bk_state outcome" where
  "handle_batches env [] s = Ret s"
| "handle_batches env (evs # bs) s =
     (if bk_watched s = 0 then Ret s else obind (handle_all env evs s) (handle_batches env bs))"

lemma handle_batches_setup: "handle_batches env bs s = Ret s' \<Longrightarrow> same_setup s s'"
  by (induction bs arbitrary: s)
     (auto simp: c_simps split: if_splits dest: handle_all_setup intro: same_setup_trans)

lemma delivers_check:
  "delivers ps bs \<Longrightarrow>
     (fst (event_check ps) > 0 \<and> (\<exists>evs rest qs. bs = evs # rest \<and> delivers qs rest \<and> evs \<noteq> [] \<and>
        (\<forall>ev \<in> set evs. wf_event ev) \<and> snd (event_check ps) = Poll_In (Some (concat (map event_bytes evs))) # qs)) \<or>
     (fst (event_check ps) \<le> 0 \<and> delivers (snd (event_check ps)) bs)"
  by (induction ps rule: event_check.induct) (auto simp: HELPERS_INVALID_EXIT_def split: list.splits)

lemma event_bytes_nonempty: "evs \<noteq> [] \<Longrightarrow> concat (map event_bytes evs) \<noteq> []"
  by (cases evs) (simp_all add: event_bytes_def le32_bytes_def)

lemma handle_batches_watched: "bk_watched s = 0 \<Longrightarrow> handle_batches env bs s = Ret s"
  by (cases bs) simp_all

text \<open>Reading one batch and draining it leaves the queue empty and the heap of entries as it was.\<close>

lemma read_and_drain:
  assumes "malloc_ok malloc" and "queue_rep h qa []" and "evs \<noteq> []" and "\<forall>ev \<in> set evs. wf_event ev"
  shows "\<exists>h1 h2. read_events malloc True (Some (concat (map event_bytes evs))) (Some qa) h = Ret (int (length evs), h1)
     \<and> process_handle_events env (Some qa) h1 s = with_heap h2 (handle_all env evs s)
     \<and> queue_rep h2 qa [] \<and> payload h2 = payload h"
proof -
  obtain h1 new where h1: "read_loop malloc True (concat (map event_bytes evs)) 0 0 (Some qa) h = Ret (int (length evs), h1)"
    "queue_rep h1 qa new" "map (payload h1) new = map Some evs"
    "\<forall>a. a \<notin> set new \<longrightarrow> payload h1 a = payload h a" "\<forall>a \<in> set new. payload h a = None"
    using read_loop_events [OF assms(1,4,2), of _ "[]" 0] by auto
  obtain h2 where h2: "process_handle_events env (Some qa) h1 s = with_heap h2 (handle_all env evs s)"
    "queue_rep h2 qa []" "\<forall>a. payload h2 a = (if a \<in> set new then None else payload h1 a)"
    using process_handle_events_all [OF h1(2,3)] by blast
  have "payload h2 = payload h" using h1(4,5) h2(3) by (auto simp: fun_eq_iff)
  with h1(1) h2(1,2) show ?thesis
    using event_bytes_nonempty [OF assms(3)] unfolding read_events_def
    by (intro exI [of _ h1] exI [of _ h2]) (simp del: concat_eq_Nil_conv)
qed

lemma process_inotify_events_batches:
  assumes "malloc_ok malloc" and "queue_rep h qa []" and "delivers ps bs" and "bk_running s" and "0 \<le> rc"
  shows "\<exists>rc' h'. 0 \<le> rc' \<and> queue_rep h' qa [] \<and> payload h' = payload h \<and>
     process_inotify_events env malloc (Some qa) ps rc h s = obind (handle_batches env bs s) (\<lambda>s'. Ret (rc', h', s'))"
  using assms(2-5)
proof (induction "length ps" arbitrary: ps bs rc h s rule: less_induct)
  case less
  show ?case
  proof (cases "bk_watched s = 0 \<or> ps = []")
    case True
    then have "handle_batches env bs s = Ret s"
      using handle_batches_watched less.prems(2) by (auto simp: delivers.simps(1))
    moreover have "process_inotify_events env malloc (Some qa) ps rc h s = Ret (rc, h, s)"
      using True by (subst process_inotify_events.simps) (auto simp: word_gt_0)
    ultimately show ?thesis using less.prems by auto
  next
    case False
    then have go: "bk_watched s > 0" "ps \<noteq> []" by (simp_all add: word_gt_0)
    from delivers_check [OF less.prems(2)] show ?thesis
    proof
      assume "fst (event_check ps) \<le> 0 \<and> delivers (snd (event_check ps)) bs"
      moreover from this go have "length (snd (event_check ps)) < length ps" by (simp add: event_check_shorter)
      moreover have "process_inotify_events env malloc (Some qa) ps rc h s
          = process_inotify_events env malloc (Some qa) (snd (event_check ps)) rc h s"
        using calculation(1) go less.prems(3) by (subst process_inotify_events.simps) simp
      ultimately show ?thesis using less by simp
    next
      assume "fst (event_check ps) > 0 \<and> (\<exists>evs rest qs. bs = evs # rest \<and> delivers qs rest \<and> evs \<noteq> [] \<and>
        (\<forall>ev \<in> set evs. wf_event ev) \<and> snd (event_check ps) = Poll_In (Some (concat (map event_bytes evs))) # qs)"
      then obtain evs rest qs where ev: "fst (event_check ps) > 0" "bs = evs # rest" "delivers qs rest" "evs \<noteq> []"
        "\<forall>ev \<in> set evs. wf_event ev" "snd (event_check ps) = Poll_In (Some (concat (map event_bytes evs))) # qs" by blast
      obtain h1 h2 where rd: "read_events malloc True (Some (concat (map event_bytes evs))) (Some qa) h = Ret (int (length evs), h1)"
        "process_handle_events env (Some qa) h1 s = with_heap h2 (handle_all env evs s)"
        "queue_rep h2 qa []" "payload h2 = payload h"
        using read_and_drain [OF assms(1) less.prems(1) ev(4,5)] by blast
      have step: "process_inotify_events env malloc (Some qa) ps rc h s
          = obind (handle_all env evs s) (\<lambda>s1. process_inotify_events env malloc (Some qa) qs (int (length evs)) h2 s1)"
        using go less.prems(3) ev(1,6) rd(1,2)
        by (subst process_inotify_events.simps) (simp add: with_heap_def obind_assoc)
      have shorter: "length qs < length ps" using event_check_shorter(2) [OF ev(6)] .
      show ?thesis
      proof (cases "handle_all env evs s")
        case (Ret s1)
        with less.prems(3) have "bk_running s1" by (auto simp: same_setup_def dest: handle_all_setup)
        from less.hyps [OF shorter rd(3) ev(3) this, of "int (length evs)"] Ret go step ev(2) rd(4)
        show ?thesis by (auto simp: word_gt_0)
      qed (use go step ev(2) rd(3,4) in \<open>auto simp: word_gt_0 intro!: exI [of _ "0::int"]\<close>)
    qed
  qed
qed

section \<open>One watch\<close>

lemma int_dec_length: "\<bar>i\<bar> < 10 ^ k \<Longrightarrow> 0 < k \<Longrightarrow> length (int_dec i) \<le> Suc k"
proof -
  assume i: "\<bar>i\<bar> < 10 ^ k" and "0 < k"
  have "nat \<bar>i\<bar> < 10 ^ k" using i by (simp add: nat_less_iff)
  with \<open>0 < k\<close> have "length (nat_dec (nat \<bar>i\<bar>)) \<le> k" by (rule nat_dec_length_le [rotated])
  then show ?thesis by (auto simp: int_dec_def abs_if split: if_splits)
qed

lemma sint64_bound: "\<bar>sint (w :: 64 word)\<bar> < 10 ^ 19"
proof -
  have "- (2 ^ 63) \<le> sint w" "sint w < 2 ^ 63"
    using sint_greater_eq [of w] sint_less [of w] by simp_all
  then show ?thesis by simp
qed

lemma watch_dir_ok:
  assumes "0 \<le> wd" and "wd < 2 ^ 31" and "length dir \<le> 1024" and "cstring (bc_path_to_log (bk_conf s)) = Some l"
  shows "\<exists>files. watch_dir env wd (Some dir) msk s
     = Ret (wd, s\<lparr>bk_watched := bk_watched s + 1, bk_files := files\<rparr>)"
proof -
  have "length (int_dec wd) \<le> Suc 10" using assms(1,2) by (intro int_dec_length) simp_all
  moreover have "length (int_dec (sint (bk_watched s + 1))) \<le> Suc 19"
    by (rule int_dec_length [OF sint64_bound]) simp
  ultimately show ?thesis
    using assms
    by (cases s) (simp add: watch_dir_def sprintf_into_def backup_sizes logger_runs Let_def)
qed

lemma watch_dir_fails:
  assumes "wd < 0" and "length dir \<le> 1024"
  shows "watch_dir env wd (Some dir) watch_mask s = Ret (HELPERS_INVALID_EXIT, s)"
  using assms nat_hex_length [of watch_mask 3]
  by (simp add: watch_dir_def sprintf_into_def backup_sizes watch_mask_def)

section \<open>The thread\<close>

lemma same_setup_close: "same_setup s (snd (close_inotify_fd r s))"
  by (simp add: close_inotify_fd_def same_setup_def)

text \<open>
  The first run of the thread: it creates the queue, watches the directory, handles the batches,
  closes the descriptor and destroys the queue, to which the static variable still points.
\<close>

lemma pthread_first_run:
  assumes "malloc_ok malloc" and "q_struct_malloc h = Some qa" and "delivers ps bs" and "bk_running s"
    and "arg_dirname env s = Ret (Some dir)" and "length dir \<le> 1024" and "0 < wd" and "wd < 2 ^ 31"
    and "cstring (bc_path_to_log (bk_conf s)) = Some l" and "fst (open_inotify_fd init fd) > 0"
  shows "\<exists>h' files. pthread_on_dir_run env malloc q_struct_malloc init wd ps closed (fd, None) h s
     = obind (handle_batches env bs (s\<lparr>bk_watched := bk_watched s + 1, bk_files := files\<rparr>))
         (\<lambda>s2. Ret ((snd (open_inotify_fd init fd), Some qa), h', snd (close_inotify_fd closed s2)))
     \<and> payload h' = payload h \<and> fmlookup (qstructs h') qa = None"
proof -
  obtain files where w: "watch_dir env wd (Some dir) watch_mask s
      = Ret (wd, s\<lparr>bk_watched := bk_watched s + 1, bk_files := files\<rparr>)"
    using watch_dir_ok [OF _ assms(8,6,9), of env watch_mask] assms(7) by auto
  let ?s1 = "s\<lparr>bk_watched := bk_watched s + 1, bk_files := files\<rparr>"
  define h1 where "h1 = put_queue qa \<lparr>head = None, tail = None\<rparr> h"
  have h1: "queue_create (q_struct_malloc h) h = Ret (qa, h1)" by (simp add: assms(2) queue_create_def h1_def)
  have rep: "queue_rep h1 qa []" "payload h1 = payload h"
    using queue_create_rep [of qa h h1] h1 assms(2) by simp_all
  have run: "bk_running ?s1" using assms(4) by simp
  obtain rc' h2 where h2: "0 \<le> rc'" "queue_rep h2 qa []" "payload h2 = payload h1"
    "process_inotify_events env malloc (Some qa) ps HELPERS_NORMAL_EXIT h1 ?s1
       = obind (handle_batches env bs ?s1) (\<lambda>s'. Ret (rc', h2, s'))"
    using process_inotify_events_batches [OF assms(1) rep(1) assms(3) run, of HELPERS_NORMAL_EXIT env]
    by (auto simp: HELPERS_NORMAL_EXIT_def)
  obtain h3 where h3: "queue_destroy (Some qa) h2 = Ret h3" "qentries h3 = qentries h2"
    "qstructs h3 = fmdrop qa (qstructs h2)" using queue_destroy_rep [OF h2(2)] by auto
  then have "payload h3 = payload h" using h2(3) rep(2) by (simp add: payload_def fun_eq_iff)
  moreover have "rc' \<noteq> HELPERS_INVALID_EXIT" using h2(1) by (simp add: HELPERS_INVALID_EXIT_def)
  ultimately show ?thesis
    using assms(5,7,10) w h1 h2(4) h3
    by (intro exI [of _ h3] exI [of _ files])
       (simp add: pthread_on_dir_run_def obind_assoc)
qed

section \<open>Samples\<close>

definition fresh_malloc :: q_malloc where
  "fresh_malloc h = Some (fresh_addr (qentries h))"

lemma fresh_malloc_ok: "malloc_ok fresh_malloc"
  by (simp add: malloc_ok_def fresh_malloc_def)

definition sample_queue_heap :: qheap where
  "sample_queue_heap = \<lparr>qstructs = fmupd 1 \<lparr>head = None, tail = None\<rparr> fmempty, qentries = fmempty\<rparr>"

lemma sample_queue_rep: "queue_rep sample_queue_heap 1 []"
  by (simp add: queue_rep_def sample_queue_heap_def)

lemma sample_change_wf: "length f < 16 \<Longrightarrow> wf_event (sample_change m f)"
  by (simp add: wf_event_def sample_change_def)

lemma sample_copied:
  "\<exists>s'. handle_event sample_bk_env (sample_change IN_CREATE ''a.c'') sample_bk = Ret s'
     \<and> bk_commands s' = [''/bin/cp /ab/a.c /bk/''] \<and> bk_watched s' = 1"
proof -
  let ?h = "bk_items sample_bk"
  have ch: "node_chain ?h (ht_node (bk_table sample_bk)) ([] @ [7])" "distinct ([] @ [7::addr])"
    using sample_inv by (simp_all add: ht_inv_def)
  have "can_list sample_bk_env ?h 7" "holds_file sample_bk_env ?h ''a.c'' 7"
    unfolding can_list_def holds_file_def sample_path_of
    by (simp_all add: sample_bk_env_def DT_REG_def sublist_code)
  from search_stops(2) [OF ch _ this, of "bk_open_dirs sample_bk"]
  have found: "search_dirs sample_bk_env (bk_running sample_bk) ''a.c'' ?h (fcard (fmdom ?h))
      (ht_node (bk_table sample_bk)) (bk_open_dirs sample_bk) = Ret (Dir_Found 7, 1)"
    by (simp add: sample_bk_def)
  have "arg_path sample_bk_env (sample_bk\<lparr>bk_open_dirs := 1, bk_arg_dir := Item_Value 7\<rparr>) = Ret ''/ab''"
    by (simp add: arg_path_def sample_bk_def item_str_def one_item_def sample_bk_env_def)
  from handle_event_copy [OF sample_named(1,2) sample_paths found refl _ _] this show ?thesis
    by (auto simp: copy_command_def COPY_COMMAND_def slashed_def HELPERS_SLASH_def sample_bk_def)
qed

section \<open>Properties\<close>

text \<open>
  Claim C4: the loop handles exactly what the kernel delivers.  Starting with an empty queue and a
  \<open>malloc\<close> that succeeds, timeouts and failed polls change nothing, every block of events is
  decoded, queued and handed to the handler event by event in the kernel's order, until nothing
  is watched any more; the first event that faults ends the service.  When the loop returns, its
  code is not an error, the queue is empty again and every entry it allocated is freed.
\<close>

theorem events_handled_in_order:
  assumes "malloc_ok malloc" and "queue_rep h qa []" and "delivers ps bs" and "bk_running s"
  shows "\<exists>rc' h'. 0 \<le> rc' \<and> queue_rep h' qa [] \<and> payload h' = payload h \<and>
     process_inotify_events env malloc (Some qa) ps HELPERS_NORMAL_EXIT h s
       = obind (handle_batches env bs s) (\<lambda>s'. Ret (rc', h', s'))"
  by (rule process_inotify_events_batches [OF assms]) (simp add: HELPERS_NORMAL_EXIT_def)

theorem events_handled_in_order_witness:
  "\<exists>rc' h' s'. process_inotify_events sample_bk_env fresh_malloc (Some 1)
       [Poll_Timeout, Poll_In (Some (event_bytes (sample_change IN_CREATE ''a.c'') @ event_bytes (sample_change IN_CREATE ''.x''))),
        Poll_Error] HELPERS_NORMAL_EXIT sample_queue_heap sample_bk = Ret (rc', h', s')
     \<and> bk_commands s' = [''/bin/cp /ab/a.c /bk/'']"
proof -
  let ?ev = "sample_change IN_CREATE ''a.c''" and ?dot = "sample_change IN_CREATE ''.x''"
  have del: "delivers [Poll_Timeout, Poll_In (Some (event_bytes ?ev @ event_bytes ?dot)), Poll_Error] [[?ev, ?dot]]"
    by (simp add: sample_change_wf)
  have run: "bk_running sample_bk" by (simp add: sample_bk_def)
  obtain s' where "handle_event sample_bk_env ?ev sample_bk = Ret s'" "bk_commands s' = [''/bin/cp /ab/a.c /bk/'']"
    using sample_copied by blast
  moreover have "handle_event sample_bk_env ?dot s' = Ret s'"
    by (simp add: handle_event_def sample_change_def inotify_bits HELPERS_DOT_def)
  moreover have "bk_watched sample_bk \<noteq> 0" by (simp add: sample_bk_def)
  ultimately have "handle_batches sample_bk_env [[?ev, ?dot]] sample_bk = Ret s'" by simp
  with events_handled_in_order [OF fresh_malloc_ok sample_queue_rep del run, of sample_bk_env]
    \<open>bk_commands s' = _\<close> show ?thesis by auto
qed

text \<open>
  Claim C23: an event without a name ends the service.  The kernel sends one without
  the directory bit when a watch is removed (\<open>IN_IGNORED\<close>, after the directory was deleted) and
  when its queue overflows.  Whatever came before it, the handler dereferences the file name,
  which is \<open>NULL\<close>, so the branches of the switch for these two events are not reached.
\<close>

theorem nameless_event_crashes:
  assumes "malloc_ok malloc" and "queue_rep h qa []" and "delivers ps ((pre @ ev # post) # bs)"
    and "bk_running s" and "bk_watched s \<noteq> 0" and "handle_all env pre s = Ret s1"
    and "ie_mask ev AND IN_ISDIR = 0" and "ie_len ev = 0"
  shows "process_inotify_events env malloc (Some qa) ps HELPERS_NORMAL_EXIT h s = Fault Null_Deref"
proof -
  have "handle_all env (pre @ ev # post) s = Fault Null_Deref"
    using assms(6)
  proof (induction pre arbitrary: s)
    case Nil
    then show ?case by (simp add: handle_event_def assms(7,8))
  qed (auto simp: c_simps)
  with assms(5) have "handle_batches env ((pre @ ev # post) # bs) s = Fault Null_Deref" by simp
  with process_inotify_events_batches [OF assms(1-4), of HELPERS_NORMAL_EXIT env] show ?thesis
    by (auto simp: HELPERS_NORMAL_EXIT_def)
qed

text \<open>The watch on a deleted directory is removed: \<open>IN_IGNORED\<close>.\<close>

theorem nameless_event_crashes_witness:
  "process_inotify_events sample_bk_env fresh_malloc (Some 1)
     [Poll_In (Some (event_bytes (sample_change IN_CREATE ''a.c'') @
        event_bytes \<lparr>ie_wd = 1, ie_mask = IN_IGNORED, ie_cookie = 0, ie_len = 0, ie_name = []\<rparr>))]
     HELPERS_NORMAL_EXIT sample_queue_heap sample_bk = Fault Null_Deref"
proof -
  let ?ev = "sample_change IN_CREATE ''a.c''"
    and ?ig = "\<lparr>ie_wd = 1, ie_mask = IN_IGNORED, ie_cookie = 0, ie_len = 0, ie_name = []\<rparr>"
  obtain s' where "handle_all sample_bk_env [?ev] sample_bk = Ret s'" using sample_copied by auto
  moreover have "delivers [Poll_In (Some (event_bytes ?ev @ event_bytes ?ig))] ([[?ev] @ ?ig # []])"
    by (simp add: sample_change_wf) (simp add: wf_event_def)
  moreover have "bk_running sample_bk" "bk_watched sample_bk \<noteq> 0" "ie_mask ?ig AND IN_ISDIR = 0" "ie_len ?ig = 0"
    by (simp_all add: sample_bk_def inotify_bits)
  ultimately show ?thesis
    by (intro nameless_event_crashes [OF fresh_malloc_ok sample_queue_rep, where pre = "[?ev]" and ev = ?ig])
qed

text \<open>
  The event thread.  With a descriptor, a watch, memory and a log path, its first run
  handles exactly the batches the kernel delivers with one more watched directory; afterwards
  every event is freed, the counter of the watches is zero if the descriptor could be closed,
  and the queue structure is freed although the static variable keeps pointing to it.
\<close>

theorem event_thread_runs:
  assumes "malloc_ok malloc" and "q_struct_malloc h = Some qa" and "delivers ps bs" and "bk_running s"
    and "arg_dirname env s = Ret (Some dir)" and "length dir \<le> 1024" and "0 < wd" and "wd < 2 ^ 31"
    and "cstring (bc_path_to_log (bk_conf s)) = Some l" and "fst (open_inotify_fd init fd) > 0"
  shows "\<exists>h' files. pthread_on_dir_run env malloc q_struct_malloc init wd ps closed (fd, None) h s
     = obind (handle_batches env bs (s\<lparr>bk_watched := bk_watched s + 1, bk_files := files\<rparr>))
         (\<lambda>s2. Ret ((snd (open_inotify_fd init fd), Some qa), h',
                    if closed < 0 then s2 else s2\<lparr>bk_watched := 0\<rparr>))
     \<and> payload h' = payload h \<and> fmlookup (qstructs h') qa = None"
proof -
  have "snd (close_inotify_fd closed s2) = (if closed < 0 then s2 else s2\<lparr>bk_watched := 0\<rparr>)" for s2
    by (simp add: close_inotify_fd_def)
  then show ?thesis using pthread_first_run [where q_struct_malloc = q_struct_malloc and h = h and closed = closed, OF assms] by simp
qed

theorem event_thread_runs_witness:
  "\<exists>h' s'. pthread_on_dir_run sample_bk_env fresh_malloc (\<lambda>_. Some 1) 5 3
       [Poll_In (Some (event_bytes (sample_change IN_CREATE ''.x'')))] 0 (0, None)
       \<lparr>qstructs = fmempty, qentries = fmempty\<rparr> sample_bk = Ret ((5, Some 1), h', s')
     \<and> bk_watched s' = 0 \<and> fmlookup (qstructs h') 1 = None"
proof -
  let ?dot = "sample_change IN_CREATE ''.x''"
  have del: "delivers [Poll_In (Some (event_bytes ?dot))] [[?dot]]" by (simp add: sample_change_wf)
  have s: "bk_running sample_bk" "arg_dirname sample_bk_env sample_bk = Ret (Some ''/r/'')"
    "cstring (bc_path_to_log (bk_conf sample_bk)) = Some ''/l''" "bk_watched sample_bk = 1"
    by (simp_all add: sample_bk_def arg_dirname_def arg_path_def backup_sizes)
  have dot: "handle_event sample_bk_env ?dot t = Ret t" for t
    by (simp add: handle_event_def sample_change_def inotify_bits HELPERS_DOT_def)
  have fd: "open_inotify_fd 5 0 = (5, 5)" by (simp add: open_inotify_fd_def HELPERS_NORMAL_EXIT_def)
  have "\<exists>h' files. pthread_on_dir_run sample_bk_env fresh_malloc (\<lambda>_. Some 1) 5 3 [Poll_In (Some (event_bytes ?dot))] 0 (0, None)
       \<lparr>qstructs = fmempty, qentries = fmempty\<rparr> sample_bk
     = obind (handle_batches sample_bk_env [[?dot]] (sample_bk\<lparr>bk_watched := 2, bk_files := files\<rparr>))
         (\<lambda>s2. Ret ((5, Some 1), h', s2\<lparr>bk_watched := 0\<rparr>)) \<and> fmlookup (qstructs h') 1 = None"
    using event_thread_runs [where q_struct_malloc = "\<lambda>_. Some 1" and h = "\<lparr>qstructs = fmempty, qentries = fmempty\<rparr>"
        and qa = 1 and wd = 3 and init = 5 and fd = 0 and closed = 0, OF fresh_malloc_ok _ del s(1,2) _ _ _ s(3)]
    by (simp add: fd s(4) del: handle_batches.simps) blast
  then show ?thesis by (auto simp: dot)
qed

end
