(* ===== verification/Backup_Scan.thy ===== *)
theory Backup_Scan
  imports Inotify "HOL-Library.Multiset"
begin

text \<open>
  The first thread of the backup service, \<open>backup_check_fs_and_run\<close> and
  \<open>backup_fs_iteration_main\<close> of \<open>services/backup_service/helpers_backup_common.c\<close>: the tree walk
  fills the shared table with the files and a local table with the directories, then every
  directory is watched and added to the shared table.  The items of the two tables are kept in
  two heaps, since blocks of \<open>malloc\<close> do not overlap.
\<close>

section \<open>The walk\<close>

datatype fts_info = FTS_F | FTS_D | FTS_Default

record fts_entry =
  fts_info :: fts_info
  fts_path :: string

type_synonym i_malloc = "hheap \<Rightarrow> addr option"
type_synonym store = "hash_table \<times> hheap"

text \<open>
  The outside of one scan: what \<open>fts_open\<close> on a path delivers, whether \<open>fts_children\<close> finds
  something, the allocators of the two tables, the start value of the local table's counter,
  what a read of a directory sees behind its block, and the results of \<open>inotify_init\<close> and of
  \<open>inotify_add_watch\<close> for the slots.
\<close>

record scan_env =
  sc_env :: bk_env
  sc_fts :: "string option \<Rightarrow> fts_entry list option"
  sc_children :: bool
  sc_malloc :: i_malloc
  sc_dir_malloc :: i_malloc
  sc_garbage :: int
  sc_dir_over :: "addr \<Rightarrow> string"
  sc_inotify_init :: int
  sc_wd :: "nat \<Rightarrow> int"

text \<open>\<open>hash_table_insert_item(table, path)\<close>; the return code is dropped.\<close>

definition insert_path :: "(addr \<Rightarrow> string) \<Rightarrow> i_malloc \<Rightarrow> string \<Rightarrow> store \<Rightarrow> store outcome" where
  "insert_path over malloc v st =
     obind (hash_table_insert_item over (malloc (snd st)) (Some (fst st)) (Some v) (snd st))
       (\<lambda>(rc, t', h'). case t' of None \<Rightarrow> Fault Null_Deref | Some t \<Rightarrow> Ret (t, h'))"

fun scan_entries :: "scan_env \<Rightarrow> bool \<Rightarrow> fts_entry list \<Rightarrow> store \<Rightarrow> store \<Rightarrow> (store \<times> store) outcome" where
  "scan_entries sc running [] files dirs = Ret (files, dirs)"
| "scan_entries sc running (p # ps) files dirs =
     (if \<not> running then Ret (files, dirs)
      else
        (case fts_info p of
           FTS_F \<Rightarrow> obind (insert_path (be_over (sc_env sc)) (sc_malloc sc) (fts_path p) files)
                      (\<lambda>files1. scan_entries sc running ps files1 dirs)
         | FTS_D \<Rightarrow> obind (insert_path (sc_dir_over sc) (sc_dir_malloc sc) (fts_path p) dirs)
                      (\<lambda>dirs1. scan_entries sc running ps files dirs1)
         | FTS_Default \<Rightarrow> scan_entries sc running ps files dirs))"

section \<open>The watches\<close>

text \<open>\<open>hash_table_insert_item(arg->hash_table, value)\<close> in the shared state.\<close>

definition insert_shared :: "scan_env \<Rightarrow> string \<Rightarrow> bk_state \<Rightarrow> bk_state outcome" where
  "insert_shared sc value s =
     obind (insert_path (be_over (sc_env sc)) (sc_malloc sc) value (bk_table s, bk_items s))
       (\<lambda>(t, h). Ret (s\<lparr>bk_table := t, bk_items := h\<rparr>))"

text \<open>
  The loop over the slots of the local table.  When a watch fails, the table is freed and the
  loop goes on: the next access, to \<open>ht_dirs->table[i]->value\<close>, is to freed memory.
\<close>

function watch_loop ::
  "scan_env \<Rightarrow> int \<Rightarrow> string option \<Rightarrow> hash_table \<Rightarrow> hheap \<Rightarrow> nat \<Rightarrow> bk_state \<Rightarrow> bk_state outcome" where
  "watch_loop sc inotify_fd root dt dh i s =
     (if int i < ht_size dt then
        obind (hash_table_search_item (Some dt) (of_nat i) None) (\<lambda>hi.
          if hi \<noteq> None \<and> inotify_fd > 0 then
            obind (item_at hi dh) (\<lambda>(a, it).
            obind (oget Null_Deref root) (\<lambda>path.
              let value = item_str (sc_dir_over sc) a it in
              obind (if \<not> strncmp_eq value path (length value)
                     then watch_dir (sc_env sc) (sc_wd sc i) (Some value) watch_mask s
                     else Ret (HELPERS_NORMAL_EXIT, s)) (\<lambda>(wd, s1).
                if wd = HELPERS_INVALID_EXIT
                then obind (hash_table_free (Some dt) dh) (\<lambda>_. Fault Use_After_Free)
                else obind (insert_shared sc value s1) (watch_loop sc inotify_fd root dt dh (Suc i)))))
          else watch_loop sc inotify_fd root dt dh (Suc i) s)
      else Ret s)"
  by pat_completeness auto
termination
  by (relation "measure (\<lambda>(sc, fd, root, dt, dh, i, s). nat (ht_size dt - int i))") auto

declare watch_loop.simps [simp del]

text \<open>The nested function: release the local table.\<close>

definition scan_free_and_exit :: "store \<Rightarrow> int \<Rightarrow> int \<Rightarrow> bk_state \<Rightarrow> (int \<times> int \<times> bk_state) outcome" where
  "scan_free_and_exit dirs rc fd s = obind (hash_table_free (Some (fst dirs)) (snd dirs)) (\<lambda>_. Ret (rc, fd, s))"

text \<open>\<open>fd\<close> is the static variable of \<open>open_inotify_fd\<close>; its new value is returned.\<close>

definition backup_check_fs_and_run :: "scan_env \<Rightarrow> int \<Rightarrow> bk_state \<Rightarrow> (int \<times> int \<times> bk_state) outcome" where
  "backup_check_fs_and_run sc fd s =
     obind (arg_dirname (sc_env sc) s) (\<lambda>root.
     obind (oget Null_Deref (hash_table_create (sc_garbage sc) HASH_TABLE_MAX)) (\<lambda>ht_dirs.
       case sc_fts sc root of
         None \<Rightarrow> scan_free_and_exit (ht_dirs, fmempty) HELPERS_INVALID_EXIT fd s
       | Some entries \<Rightarrow>
           if \<not> sc_children sc then scan_free_and_exit (ht_dirs, fmempty) HELPERS_NORMAL_EXIT fd s
           else
             obind (scan_entries sc (bk_running s) entries (bk_table s, bk_items s) (ht_dirs, fmempty))
               (\<lambda>(files, dirs).
                 let s1 = s\<lparr>bk_table := fst files, bk_items := snd files\<rparr>;
                     opened = open_inotify_fd (sc_inotify_init sc) fd in
                 obind (watch_loop sc (fst opened) root (fst dirs) (snd dirs) 0 s1) (\<lambda>s2.
                   scan_free_and_exit dirs HELPERS_NORMAL_EXIT (snd opened) s2))))"

definition backup_fs_iteration_main :: "scan_env \<Rightarrow> int \<Rightarrow> bk_state \<Rightarrow> (int \<times> int \<times> bk_state) outcome" where
  "backup_fs_iteration_main sc fd s =
     obind (backup_check_fs_and_run sc fd s) (\<lambda>(rc, fd1, s1).
       Ret (if ht_count (bk_table s1) = 0 then HELPERS_INVALID_EXIT else rc, fd1, s1))"

section \<open>The walk as insertions into two stores\<close>

definition paths_of :: "fts_info \<Rightarrow> fts_entry list \<Rightarrow> string list" where
  "paths_of k es = map fts_path (filter (\<lambda>e. fts_info e = k) es)"

text \<open>The allocator of a table succeeds with an unused address.\<close>

definition i_malloc_ok :: "i_malloc \<Rightarrow> bool" where
  "i_malloc_ok malloc \<longleftrightarrow> (\<forall>h. \<exists>a. malloc h = Some a \<and> fmlookup h a = None)"

lemma kept_append: "kept key ok (xs @ ys) vs = kept key ok ys (kept key ok xs vs)"
  by (induction xs arbitrary: vs) auto

lemma insert_path_rep:
  assumes "i_malloc_ok malloc" and "store_rep st vs" and "nul_free v"
  shows "\<exists>st'. insert_path over malloc v st = Ret st' \<and> store_rep st' (kept key_nat storable [v] vs)"
proof -
  obtain a where a: "malloc (snd st) = Some a" "store_fresh a st"
    using assms(1) by (auto simp: i_malloc_ok_def store_fresh_def)
  obtain rc st' where st': "store_ins over a v st = Ret (rc, st')"
    "store_rep st' (if storable v \<and> ht_abs (fst st) (snd st) (key_nat v) = None then v # vs else vs)"
    using ht.ins_rep [OF assms(2) a(2) assms(3)] by blast
  have "insert_path over malloc v st = obind (store_ins over a v st) (\<lambda>(rc, st'). Ret st')"
    by (auto simp: insert_path_def store_ins_def a(1) obind_assoc intro!: obind_cong split: option.splits)
  with st' ht.find_None [OF assms(2), of "key_nat v"] show ?thesis by auto
qed

lemma scan_entries_rep:
  assumes "i_malloc_ok (sc_malloc sc)" and "i_malloc_ok (sc_dir_malloc sc)"
    and "store_rep files vs" and "store_rep dirs ds" and "\<forall>e \<in> set es. nul_free (fts_path e)"
  shows "\<exists>files' dirs'. scan_entries sc True es files dirs = Ret (files', dirs')
     \<and> store_rep files' (kept key_nat storable (paths_of FTS_F es) vs)
     \<and> store_rep dirs' (kept key_nat storable (paths_of FTS_D es) ds)"
  using assms(3-5)
proof (induction es arbitrary: files dirs vs ds)
  case Nil
  then show ?case by (auto simp: paths_of_def)
next
  case (Cons e es)
  have nf: "nul_free (fts_path e)" using Cons.prems(3) by simp
  show ?case
  proof (cases "fts_info e")
    case FTS_F
    obtain f1 where "insert_path (be_over (sc_env sc)) (sc_malloc sc) (fts_path e) files = Ret f1"
      "store_rep f1 (kept key_nat storable [fts_path e] vs)"
      using insert_path_rep [OF assms(1) Cons.prems(1) nf] by blast
    with Cons.IH [of f1 _ dirs ds] Cons.prems FTS_F show ?thesis by (simp add: paths_of_def)
  next
    case FTS_D
    obtain d1 where "insert_path (sc_dir_over sc) (sc_dir_malloc sc) (fts_path e) dirs = Ret d1"
      "store_rep d1 (kept key_nat storable [fts_path e] ds)"
      using insert_path_rep [OF assms(2) Cons.prems(2) nf] by blast
    with Cons.IH [of files vs d1] Cons.prems FTS_D show ?thesis by (simp add: paths_of_def)
  next
    case FTS_Default
    with Cons.IH [OF Cons.prems(1,2)] Cons.prems(3) show ?thesis by (simp add: paths_of_def)
  qed
qed

section \<open>The loop over the slots\<close>

definition slot_values :: "hash_table \<Rightarrow> hheap \<Rightarrow> nat \<Rightarrow> nat \<Rightarrow> string list" where
  "slot_values t h i j = List.map_filter (ht_abs t h) [i..<j]"

lemma slot_values_first:
  "i < j \<Longrightarrow> slot_values t h i j
     = (case ht_abs t h i of None \<Rightarrow> [] | Some v \<Rightarrow> [v]) @ slot_values t h (Suc i) j"
  by (simp add: slot_values_def upt_rec [of i] map_filter_simps split: option.splits)

text \<open>The watches of a list of directories: all but the prefixes of the root's path.\<close>

definition watched_of :: "string \<Rightarrow> string list \<Rightarrow> string list" where
  "watched_of root ds = filter (\<lambda>v. \<not> prefix v root) ds"

definition watches_ok :: "scan_env \<Rightarrow> string list \<Rightarrow> bool" where
  "watches_ok sc ds \<longleftrightarrow> (\<forall>v \<in> set ds. 0 \<le> sc_wd sc (key_nat v) \<and> sc_wd sc (key_nat v) < 2 ^ 31)"

text \<open>What the loop changes: the table, the counter and the log.\<close>

definition scanned :: "bk_state \<Rightarrow> string list \<Rightarrow> nat \<Rightarrow> bk_state \<Rightarrow> bool" where
  "scanned s vs n s' \<longleftrightarrow> (\<exists>t h files. s' = s\<lparr>bk_table := t, bk_items := h, bk_files := files,
       bk_watched := bk_watched s + of_nat n\<rparr> \<and> store_rep (t, h) vs)"

lemma scanned_trans: "scanned s vs m s1 \<Longrightarrow> scanned s1 ws n s2 \<Longrightarrow> scanned s ws (m + n) s2"
  by (cases s) (auto simp: scanned_def add.assoc)

lemma insert_shared_scanned:
  assumes "i_malloc_ok (sc_malloc sc)" and "store_rep (bk_table s, bk_items s) vs" and "nul_free v"
  shows "\<exists>s'. insert_shared sc v s = Ret s' \<and> scanned s (kept key_nat storable [v] vs) 0 s'"
proof -
  obtain t h where th: "insert_path (be_over (sc_env sc)) (sc_malloc sc) v (bk_table s, bk_items s) = Ret (t, h)"
    "store_rep (t, h) (kept key_nat storable [v] vs)"
    using insert_path_rep [OF assms] by (metis surj_pair)
  then show ?thesis
    unfolding insert_shared_def scanned_def
    by (intro exI [of _ "s\<lparr>bk_table := t, bk_items := h\<rparr>"] conjI exI [of _ t] exI [of _ h] exI [of _ "bk_files s"]) simp_all
qed

text \<open>The local table as a store, and what its slots hold.\<close>

lemma store_slot:
  assumes "store_rep (dt, dh) ds" and "i < 10000"
  shows "hash_table_search_item (Some dt) (of_nat i) None = Ret (ht_table dt i)"
proof -
  obtain as where as: "ht_inv dt dh as" "ht_size dt = 10000"
    using assms(1) by (auto simp: store_rep_def HASH_TABLE_MAX_def)
  have u: "unat (of_nat i :: u32) = i" using assms(2) by (simp add: unsigned_of_nat take_bit_nat_eq_self)
  show ?thesis
  proof (cases "i = 0")
    case True
    have "ht_table dt 0 = None"
    proof (rule ccontr)
      assume "ht_table dt 0 \<noteq> None"
      then obtain a where "a \<in> set as" "key_of dh a = 0" using ht_inv_table [OF as(1)] by blast
      with ht_inv_item [OF as(1), of a] show False by (auto simp: key_of_def item_ok_def)
    qed
    with True show ?thesis by (simp add: hash_table_search_item_def)
  next
    case False
    then have "(of_nat i :: u32) \<noteq> 0" using u by auto
    with hash_table_search_key [OF as(1)] as(2) assms(2) u show ?thesis by simp
  qed
qed

lemma store_slot_value:
  assumes "store_rep (dt, dh) ds" and "ht_abs dt dh i = Some v"
  shows "\<exists>a it. ht_table dt i = Some a \<and> item_at (Some a) dh = Ret (a, it) \<and> hi_value it = v
     \<and> nul_free v \<and> length v \<le> 512 \<and> key_nat v = i"
proof -
  obtain as where as: "ht_inv dt dh as" using assms(1) by (auto simp: store_rep_def)
  obtain a where a: "ht_table dt i = Some a" "v = value_of dh a" using assms(2) by (auto simp: ht_abs_def)
  then have "a \<in> set as" using ht_inv_table [OF as] by blast
  with ht_inv_item [OF as] obtain it where "fmlookup dh a = Some it" "item_ok (ht_size dt) it" by blast
  moreover have "key_nat v = i" using store_find_rep [OF assms(1), of i v] assms(2) by simp
  ultimately show ?thesis
    using a by (auto simp: item_at_def value_of_def item_ok_def HASH_ITEM_MAX_SIZE_STR_def)
qed

lemma store_size: "store_rep (dt, dh) ds \<Longrightarrow> ht_size dt = 10000"
  by (auto simp: store_rep_def HASH_TABLE_MAX_def)

text \<open>One slot.\<close>

lemma watch_loop_empty:
  assumes "store_rep (dt, dh) ds" and "i < 10000" and "ht_abs dt dh i = None"
  shows "watch_loop sc fd root dt dh i s = watch_loop sc fd root dt dh (Suc i) s"
  using assms store_slot [OF assms(1,2)] store_size [OF assms(1)]
  by (subst watch_loop.simps) (simp add: ht_abs_def)

lemma watch_loop_dir:
  assumes "store_rep (dt, dh) ds" and "i < 10000" and "ht_abs dt dh i = Some v" and "fd > 0"
    and "\<forall>a. sc_dir_over sc a = []"
  shows "watch_loop sc fd (Some root) dt dh i s
    = obind (if \<not> prefix v root then watch_dir (sc_env sc) (sc_wd sc i) (Some v) watch_mask s
             else Ret (HELPERS_NORMAL_EXIT, s)) (\<lambda>(wd, s1).
        if wd = HELPERS_INVALID_EXIT then obind (hash_table_free (Some dt) dh) (\<lambda>_. Fault Use_After_Free)
        else obind (insert_shared sc v s1) (watch_loop sc fd (Some root) dt dh (Suc i)))"
proof -
  obtain a it where "ht_table dt i = Some a" "item_at (Some a) dh = Ret (a, it)" "hi_value it = v"
    using store_slot_value [OF assms(1,3)] by blast
  then show ?thesis
    using assms store_slot [OF assms(1,2)] store_size [OF assms(1)]
    by (subst watch_loop.simps) (simp add: item_str_def strncmp_eq_len Let_def cong: if_cong)
qed

text \<open>One directory whose watch succeeds, or that is not watched.\<close>

lemma watch_loop_step:
  assumes "store_rep (dt, dh) ds" and "i < 10000" and "ht_abs dt dh i = Some v" and "fd > 0"
    and "\<forall>a. sc_dir_over sc a = []" and "i_malloc_ok (sc_malloc sc)"
    and "cstring (bc_path_to_log (bk_conf s)) = Some l" and "store_rep (bk_table s, bk_items s) vs"
    and "watches_ok sc (watched_of root [v])"
  shows "\<exists>s'. watch_loop sc fd (Some root) dt dh i s = watch_loop sc fd (Some root) dt dh (Suc i) s'
     \<and> scanned s (kept key_nat storable [v] vs) (length (watched_of root [v])) s'"
proof -
  have v: "nul_free v" "length v \<le> 512" "key_nat v = i" using store_slot_value [OF assms(1,3)] by auto
  obtain wd s1 where s1: "(if \<not> prefix v root then watch_dir (sc_env sc) (sc_wd sc i) (Some v) watch_mask s
             else Ret (HELPERS_NORMAL_EXIT, s)) = Ret (wd, s1)" "wd \<noteq> HELPERS_INVALID_EXIT"
    "scanned s vs (length (watched_of root [v])) s1"
  proof (cases "prefix v root")
    case True
    then show thesis
      using that [of HELPERS_NORMAL_EXIT s] assms(8)
      by (cases s) (auto simp: scanned_def watched_of_def HELPERS_NORMAL_EXIT_def HELPERS_INVALID_EXIT_def)
  next
    case False
    with assms(9) v(3) have wd: "0 \<le> sc_wd sc i" "sc_wd sc i < 2 ^ 31"
      by (simp_all add: watches_ok_def watched_of_def)
    have "length v \<le> 1024" using v(2) by simp
    from watch_dir_ok [OF wd this assms(7), of "sc_env sc" watch_mask] obtain files where
      "watch_dir (sc_env sc) (sc_wd sc i) (Some v) watch_mask s
         = Ret (sc_wd sc i, s\<lparr>bk_watched := bk_watched s + 1, bk_files := files\<rparr>)" by blast
    with False wd that show thesis
      using assms(8) by (cases s) (auto simp: scanned_def watched_of_def HELPERS_INVALID_EXIT_def)
  qed
  then have "store_rep (bk_table s1, bk_items s1) vs" by (auto simp: scanned_def)
  from insert_shared_scanned [OF assms(6) this v(1)] obtain s2 where
    s2: "insert_shared sc v s1 = Ret s2" "scanned s1 (kept key_nat storable [v] vs) 0 s2" by blast
  from scanned_trans [OF s1(3) s2(2)] s1(1,2) s2(1) show ?thesis
    by (intro exI [of _ s2]) (simp add: watch_loop_dir [OF assms(1-5)])
qed

lemma scanned_conf: "scanned s vs n s' \<Longrightarrow> bk_conf s' = bk_conf s"
  by (auto simp: scanned_def)

lemma scanned_rep: "scanned s vs n s' \<Longrightarrow> store_rep (bk_table s', bk_items s') vs"
  by (auto simp: scanned_def)

lemma scanned_refl: "store_rep (bk_table s, bk_items s) vs \<Longrightarrow> scanned s vs 0 s"
  by (cases s) (auto simp: scanned_def)

lemma watch_loop_run:
  assumes "store_rep (dt, dh) ds" and "fd > 0" and "\<forall>a. sc_dir_over sc a = []" and "i_malloc_ok (sc_malloc sc)"
    and "cstring (bc_path_to_log (bk_conf s)) = Some l" and "store_rep (bk_table s, bk_items s) vs"
    and "i \<le> j" and "j \<le> 10000" and "watches_ok sc (watched_of root (slot_values dt dh i j))"
  shows "\<exists>s'. watch_loop sc fd (Some root) dt dh i s = watch_loop sc fd (Some root) dt dh j s'
     \<and> scanned s (kept key_nat storable (slot_values dt dh i j) vs) (length (watched_of root (slot_values dt dh i j))) s'"
  using assms(5-9)
proof (induction "j - i" arbitrary: i s vs)
  case 0
  then have "i = j" by simp
  with 0 show ?case by (auto simp: slot_values_def watched_of_def map_filter_simps intro: scanned_refl)
next
  case (Suc n)
  then have i: "i < j" "i < 10000" "n = j - Suc i" "Suc i \<le> j" by simp_all
  show ?case
  proof (cases "ht_abs dt dh i")
    case None
    with Suc.hyps(1) [OF i(3) Suc.prems(1,2) i(4)] Suc.prems(4,5) i watch_loop_empty [OF assms(1) i(2) None]
    show ?thesis by (simp add: slot_values_first)
  next
    case (Some v)
    have sv: "slot_values dt dh i j = [v] @ slot_values dt dh (Suc i) j"
      using i(1) Some by (simp add: slot_values_first)
    have ok: "watches_ok sc (watched_of root [v])" "watches_ok sc (watched_of root (slot_values dt dh (Suc i) j))"
      using Suc.prems(5) unfolding sv by (auto simp: watches_ok_def watched_of_def)
    obtain s1 where s1: "watch_loop sc fd (Some root) dt dh i s = watch_loop sc fd (Some root) dt dh (Suc i) s1"
      "scanned s (kept key_nat storable [v] vs) (length (watched_of root [v])) s1"
      using watch_loop_step [OF assms(1) i(2) Some assms(2-4) Suc.prems(1,2) ok(1)] by blast
    have "cstring (bc_path_to_log (bk_conf s1)) = Some l" using Suc.prems(1) scanned_conf [OF s1(2)] by simp
    from Suc.hyps(1) [OF i(3) this scanned_rep [OF s1(2)] i(4) Suc.prems(4) ok(2)] obtain s2 where
      "watch_loop sc fd (Some root) dt dh (Suc i) s1 = watch_loop sc fd (Some root) dt dh j s2"
      "scanned s1 (kept key_nat storable (slot_values dt dh (Suc i) j) (kept key_nat storable [v] vs))
         (length (watched_of root (slot_values dt dh (Suc i) j))) s2" by blast
    with scanned_trans [OF s1(2) this(2)] s1(1) show ?thesis
      unfolding sv kept_append by (auto simp: watched_of_def)
  qed
qed

section \<open>The slots hold the directories in the order of their keys\<close>

lemma set_map_filter: "set (List.map_filter f xs) = {y. \<exists>x \<in> set xs. f x = Some y}"
  by (induction xs) (auto simp: map_filter_simps split: option.splits)

lemma map_filter_append: "List.map_filter f (xs @ ys) = List.map_filter f xs @ List.map_filter f ys"
  by (induction xs) (auto simp: map_filter_simps split: option.splits)

lemma map_filter_keys:
  assumes "\<And>k v. f k = Some v \<Longrightarrow> key v = k"
  shows "map key (List.map_filter f ks) = filter (\<lambda>k. f k \<noteq> None) ks"
  using assms by (induction ks) (auto simp: map_filter_simps split: option.splits)

lemma store_values_distinct:
  assumes "store_rep (dt, dh) ds" shows "distinct ds"
proof -
  obtain as where as: "ht_inv dt dh as" "ds = map (value_of dh) as" using assms by (auto simp: store_rep_def)
  moreover have "distinct as" using as(1) by (simp add: ht_inv_def)
  moreover have "inj_on (value_of dh) (set as)"
  proof
    fix a b assume "a \<in> set as" "b \<in> set as" "value_of dh a = value_of dh b"
    then show "a = b" using key_of_value [OF as(1)] ht_inv_key_inj [OF as(1), of a b] by metis
  qed
  ultimately show ?thesis by (simp add: distinct_map)
qed

lemma key_nat_bound: "key_nat v < 10000"
  using hash_key_bound by (simp add: key_nat_def)

lemma slot_values_sorted:
  assumes "store_rep (dt, dh) ds"
  shows "slot_values dt dh 0 10000 = sort_key key_nat ds"
proof (rule sort_key_inj_key_eq [symmetric])
  let ?xs = "slot_values dt dh 0 10000"
  have f: "ht_abs dt dh k = Some v \<longleftrightarrow> v \<in> set ds \<and> key_nat v = k" for k v
    using store_find_rep [OF assms] by simp
  then have keys: "map key_nat ?xs = filter (\<lambda>k. ht_abs dt dh k \<noteq> None) [0..<10000]"
    unfolding slot_values_def by (intro map_filter_keys) blast
  then show "sorted (map key_nat ?xs)" by (simp only: sorted_filter [of id, simplified] sorted_upt)
  have "distinct (map key_nat ?xs)" unfolding keys by simp
  then have "distinct ?xs" by (simp only: distinct_map)
  moreover have "set ?xs = set ds"
    by (auto simp: slot_values_def set_map_filter f key_nat_bound)
  ultimately show "mset ds = mset ?xs"
    using set_eq_iff_mset_eq_distinct store_values_distinct [OF assms] by metis
  show "inj_on key_nat (set ds)"
    using ht.rep_keys_inj [OF assms] by (auto simp: inj_on_def)
qed

lemma slot_values_split:
  "i \<le> m \<Longrightarrow> m \<le> j \<Longrightarrow> slot_values t h i j = slot_values t h i m @ slot_values t h m j"
  using upt_add_eq_append [of i m "j - m"] by (simp add: slot_values_def flip: map_filter_append)

text \<open>The slots below the key of a directory hold the directories before it.\<close>

lemma slot_values_before:
  assumes "store_rep (dt, dh) vs" and "slot_values dt dh 0 10000 = ds @ v # rest"
  shows "slot_values dt dh 0 (key_nat v) = ds"
proof -
  have f: "ht_abs dt dh k = Some w \<longleftrightarrow> w \<in> set vs \<and> key_nat w = k" for k w
    using store_find_rep [OF assms(1)] by simp
  have "v \<in> set vs" using arg_cong [OF assms(2), of set] slot_values_sorted [OF assms(1)] by auto
  then have v: "ht_abs dt dh (key_nat v) = Some v" by (simp add: f)
  have eq: "slot_values dt dh 0 10000 = slot_values dt dh 0 (key_nat v) @ v # slot_values dt dh (Suc (key_nat v)) 10000"
    using slot_values_split [of 0 "key_nat v" 10000 dt dh] slot_values_first [of "key_nat v" 10000 dt dh]
      key_nat_bound [of v] v by simp
  have "distinct (ds @ v # rest)"
    using store_values_distinct [OF assms(1)] slot_values_sorted [OF assms(1)] assms(2) distinct_sort by metis
  then have "v \<notin> set ds" "v \<notin> set rest" by auto
  with eq assms(2) show ?thesis by (simp add: append_Cons_eq_iff)
qed

section \<open>The whole scan\<close>

text \<open>
  What the outside provides: memory, a zeroed counter in the local table, a terminator behind
  the blocks of the directories, an inotify descriptor and a tree whose paths are C strings.
\<close>

definition scan_ok :: "scan_env \<Rightarrow> int \<Rightarrow> string \<Rightarrow> fts_entry list \<Rightarrow> bool" where
  "scan_ok sc fd root es \<longleftrightarrow>
     i_malloc_ok (sc_malloc sc) \<and> i_malloc_ok (sc_dir_malloc sc) \<and> sc_garbage sc = 0 \<and>
     (\<forall>a. sc_dir_over sc a = []) \<and> fst (open_inotify_fd (sc_inotify_init sc) fd) > 0 \<and>
     sc_children sc \<and> sc_fts sc (Some root) = Some es \<and> (\<forall>e \<in> set es. nul_free (fts_path e))"

text \<open>The state of the service when the thread starts.\<close>

definition scan_start :: "scan_env \<Rightarrow> string \<Rightarrow> bk_state \<Rightarrow> bool" where
  "scan_start sc root s \<longleftrightarrow>
     bk_running s \<and> store_rep (bk_table s, bk_items s) [] \<and> bk_arg_dir s = Dir_Buffer \<and> arg_dirname (sc_env sc) s = Ret (Some root) \<and>
     cstring (bc_path_to_log (bk_conf s)) \<noteq> None"

definition dirs_by_key :: "fts_entry list \<Rightarrow> string list" where
  "dirs_by_key es = sort_key key_nat (kept key_nat storable (paths_of FTS_D es) [])"

lemma check_fs_unfold:
  assumes "scan_ok sc fd root es" and "scan_start sc root s"
  obtains dt dh s1 where "store_rep (dt, dh) (kept key_nat storable (paths_of FTS_D es) [])"
    and "scanned s (kept key_nat storable (paths_of FTS_F es) []) 0 s1"
    and "backup_check_fs_and_run sc fd s
      = obind (watch_loop sc (fst (open_inotify_fd (sc_inotify_init sc) fd)) (Some root) dt dh 0 s1)
          (\<lambda>s2. Ret (HELPERS_NORMAL_EXIT, snd (open_inotify_fd (sc_inotify_init sc) fd), s2))"
proof -
  have start: "bk_running s" "store_rep (bk_table s, bk_items s) []" "arg_dirname (sc_env sc) s = Ret (Some root)"
    using assms(2) by (simp_all add: scan_start_def)
  have "store_rep (empty_table, fmempty) []"
    using empty_table_inv by (auto simp: store_rep_def empty_table_def)
  with start(2) assms(1) obtain t h dt dh where
    walk: "scan_entries sc True es (bk_table s, bk_items s) (empty_table, fmempty) = Ret ((t, h), (dt, dh))"
    "store_rep (t, h) (kept key_nat storable (paths_of FTS_F es) [])"
    "store_rep (dt, dh) (kept key_nat storable (paths_of FTS_D es) [])"
    using scan_entries_rep [of sc "(bk_table s, bk_items s)" "[]" "(empty_table, fmempty)" "[]" es]
    by (auto simp: scan_ok_def)
  let ?s1 = "s\<lparr>bk_table := t, bk_items := h\<rparr>"
  obtain as where "ht_inv dt dh as" using walk(3) by (auto simp: store_rep_def)
  then have free: "scan_free_and_exit (dt, dh) rc fd' = (\<lambda>s2. Ret (rc, fd', s2))" for rc fd'
    by (simp add: scan_free_and_exit_def hash_table_free_inv fun_eq_iff)
  have "scanned s (kept key_nat storable (paths_of FTS_F es) []) 0 ?s1"
    using walk(2) by (cases s) (auto simp: scanned_def)
  moreover have "backup_check_fs_and_run sc fd s
      = obind (watch_loop sc (fst (open_inotify_fd (sc_inotify_init sc) fd)) (Some root) dt dh 0 ?s1)
          (\<lambda>s2. Ret (HELPERS_NORMAL_EXIT, snd (open_inotify_fd (sc_inotify_init sc) fd), s2))"
    using assms(1) start walk(1) empty_table_created
    by (simp add: backup_check_fs_and_run_def scan_ok_def free Let_def)
  ultimately show thesis using that walk(3) by blast
qed

lemma check_fs_scanned:
  assumes "scan_ok sc fd root es" and "scan_start sc root s"
    and "watches_ok sc (watched_of root (dirs_by_key es))"
  shows "\<exists>s2. backup_check_fs_and_run sc fd s
       = Ret (HELPERS_NORMAL_EXIT, snd (open_inotify_fd (sc_inotify_init sc) fd), s2)
     \<and> scanned s (kept key_nat storable (paths_of FTS_F es @ dirs_by_key es) [])
         (length (watched_of root (dirs_by_key es))) s2"
proof -
  let ?fd = "fst (open_inotify_fd (sc_inotify_init sc) fd)"
  obtain dt dh s1 where st: "store_rep (dt, dh) (kept key_nat storable (paths_of FTS_D es) [])"
    "scanned s (kept key_nat storable (paths_of FTS_F es) []) 0 s1"
    and check: "backup_check_fs_and_run sc fd s = obind (watch_loop sc ?fd (Some root) dt dh 0 s1)
          (\<lambda>s2. Ret (HELPERS_NORMAL_EXIT, snd (open_inotify_fd (sc_inotify_init sc) fd), s2))"
    using check_fs_unfold [OF assms(1,2)] by metis
  have slots: "slot_values dt dh 0 10000 = dirs_by_key es"
    using slot_values_sorted [OF st(1)] by (simp add: dirs_by_key_def)
  obtain l where "cstring (bc_path_to_log (bk_conf s1)) = Some l"
    using assms(2) scanned_conf [OF st(2)] by (auto simp: scan_start_def)
  from watch_loop_run [OF st(1) _ _ _ this scanned_rep [OF st(2)], of ?fd sc 0 10000 root] assms(1,3)
  obtain s2 where s2: "watch_loop sc ?fd (Some root) dt dh 0 s1 = watch_loop sc ?fd (Some root) dt dh 10000 s2"
    "scanned s1 (kept key_nat storable (dirs_by_key es) (kept key_nat storable (paths_of FTS_F es) []))
       (length (watched_of root (dirs_by_key es))) s2"
    unfolding slots by (auto simp: scan_ok_def)
  have "watch_loop sc ?fd (Some root) dt dh 10000 s2 = Ret s2"
    using store_size [OF st(1)] by (simp add: watch_loop.simps)
  with check s2(1) scanned_trans [OF st(2) s2(2)] show ?thesis by (simp add: kept_append)
qed

text \<open>The scan does not move the thread argument's directory.\<close>

lemma dirname_scanned:
  assumes "scanned s vs n s1" and "arg_dirname env s = Ret (Some root)" and "\<forall>a. bk_arg_dir s \<noteq> Item_Value a"
  shows "arg_dirname env s1 = Ret (Some root)"
  using assms by (cases "bk_arg_dir s") (auto simp: scanned_def arg_dirname_def arg_path_def)

section \<open>A small tree\<close>

definition sample_tree :: "fts_entry list" where
  "sample_tree = [\<lparr>fts_info = FTS_D, fts_path = ''/r/''\<rparr>, \<lparr>fts_info = FTS_F, fts_path = ''/r/f''\<rparr>,
     \<lparr>fts_info = FTS_D, fts_path = ''/r/d''\<rparr>, \<lparr>fts_info = FTS_Default, fts_path = ''/r/d''\<rparr>]"

definition sample_scan :: "(nat \<Rightarrow> int) \<Rightarrow> scan_env" where
  "sample_scan wd = \<lparr>sc_env = sample_bk_env,
     sc_fts = (\<lambda>p. if p = Some ''/r/'' then Some sample_tree else None), sc_children = True,
     sc_malloc = (\<lambda>h. Some (fresh_addr h)), sc_dir_malloc = (\<lambda>h. Some (fresh_addr h)), sc_garbage = 0,
     sc_dir_over = (\<lambda>_. []), sc_inotify_init = 5, sc_wd = wd\<rparr>"

definition sample_start :: bk_state where
  "sample_start = sample_bk\<lparr>bk_table := empty_table, bk_items := fmempty\<rparr>"

lemma sample_scan_ok: "scan_ok (sample_scan wd) 0 ''/r/'' sample_tree"
  by (simp add: scan_ok_def sample_scan_def sample_tree_def i_malloc_ok_def open_inotify_fd_def HELPERS_NORMAL_EXIT_def)

lemma sample_scan_start: "scan_start (sample_scan wd) ''/r/'' sample_start"
  using empty_table_inv [of fmempty]
  by (simp add: scan_start_def sample_start_def sample_bk_def arg_dirname_def arg_path_def backup_sizes store_rep_def
      empty_table_def)

lemma sample_keys: "key_nat ''/r/'' = 161" "key_nat ''/r/f'' = 263" "key_nat ''/r/d'' = 261"
  by code_simp+

lemma sample_dirs: "dirs_by_key sample_tree = [''/r/'', ''/r/d'']"
  by (simp add: dirs_by_key_def sample_tree_def paths_of_def storable_def HASH_ITEM_MAX_SIZE_STR_def sample_keys
      flip: key_nat_def)

lemma sample_kept:
  "kept key_nat storable (paths_of FTS_F sample_tree @ dirs_by_key sample_tree) [] = [''/r/d'', ''/r/'', ''/r/f'']"
proof -
  have "paths_of FTS_F sample_tree = [''/r/f'']" by (simp add: sample_tree_def paths_of_def)
  then show ?thesis
    by (simp add: sample_dirs storable_def HASH_ITEM_MAX_SIZE_STR_def sample_keys flip: key_nat_def)
qed

section \<open>Properties\<close>





end
