(* ===== verification/Backup_Start.thy ===== *)
theory Backup_Start
  imports Backup_Scan
begin

text \<open>
  The driver \<open>start\<close> of \<open>services/backup_service/backup_service_main.c\<close> with the two thread
  functions \<open>backup_loop\<close> and \<open>general_loop\<close>.  What the threads do to the shared state until
  SIGINT is a parameter of the driver.  Two instances are treated: the schedule in which the scan comes
  first (\<open>backup_threads\<close>) and, for the invariant, any interleaving of the operations of both
  threads (\<open>bk_step\<close>).
\<close>

definition THREAD_COUNT :: nat where "THREAD_COUNT = 2"
definition BACKUP_MAX_SEC_WAIT :: nat where "BACKUP_MAX_SEC_WAIT = 30"

section \<open>The threads\<close>

definition backup_loop :: "scan_env \<Rightarrow> int \<Rightarrow> bk_state \<Rightarrow> (int \<times> bk_state) outcome" where
  "backup_loop sc fd s = obind (backup_fs_iteration_main sc fd s) (\<lambda>(_, fd1, s1). Ret (fd1, s1))"

text \<open>The outside of the event thread, beside that of the scan.\<close>

record thread_env =
  te_scan :: scan_env
  te_malloc :: q_malloc
  te_queue_malloc :: q_malloc
  te_wd :: int
  te_polls :: "poll_result list"
  te_closed :: int

definition general_loop ::
  "thread_env \<Rightarrow> int \<times> addr option \<Rightarrow> qheap \<Rightarrow> bk_state \<Rightarrow> ((int \<times> addr option) \<times> qheap \<times> bk_state) outcome" where
  "general_loop te statics h s =
     pthread_on_dir_run (sc_env (te_scan te)) (te_malloc te) (te_queue_malloc te) (sc_inotify_init (te_scan te))
       (te_wd te) (te_polls te) (te_closed te) statics h s"

text \<open>
  One schedule: the scan runs to its end, then the event thread until SIGINT.  The handler of
  the signal only logs and clears the flag; it is put after the events.
\<close>

definition backup_threads :: "thread_env \<Rightarrow> qheap \<Rightarrow> bk_state \<Rightarrow> bk_state outcome" where
  "backup_threads te h s =
     obind (backup_loop (te_scan te) 0 s) (\<lambda>(fd, s1).
     obind (general_loop te (fd, None) h s1) (\<lambda>(_, _, s2).
       backup_signal_handler (sc_env (te_scan te)) s2))"

section \<open>The driver\<close>

text \<open>
  \<open>se_garbage\<close> is the start value of the counter of the shared table, \<open>se_create i\<close> the result
  of \<open>pthread_create\<close>, \<open>se_tryjoin i k\<close> that of the \<open>k\<close>th \<open>pthread_tryjoin_np\<close>.
\<close>

record start_env =
  se_freopen :: bool
  se_garbage :: int
  se_conf :: conf_env
  se_stat :: "string \<Rightarrow> bool option"
  se_mutex :: int
  se_create :: "nat \<Rightarrow> int"
  se_tryjoin :: "nat \<Rightarrow> nat \<Rightarrow> int"

text \<open>The threads are created in order; a failure stops the driver.\<close>

function bk_create_loop :: "start_env \<Rightarrow> nat \<Rightarrow> bool" where
  "bk_create_loop env i =
     (if i < THREAD_COUNT then
        (if se_create env i \<noteq> NORMAL_EXIT then False else bk_create_loop env (i + 1))
      else True)"
  by pat_completeness auto
termination
  by (relation "measure (\<lambda>(env, i). THREAD_COUNT - i)") auto

text \<open>After SIGINT: every thread is waited for, a timeout sets the result.\<close>

function bk_join_threads :: "start_env \<Rightarrow> nat \<Rightarrow> int \<Rightarrow> int" where
  "bk_join_threads env i rc =
     (if i < THREAD_COUNT then
        bk_join_threads env (i + 1)
          (if wait_join BACKUP_MAX_SEC_WAIT (se_tryjoin env i) 0 then INVALID_EXIT else rc)
      else rc)"
  by pat_completeness auto
termination
  by (relation "measure (\<lambda>(env, i, rc). THREAD_COUNT - i)") auto

declare bk_create_loop.simps [simp del] bk_join_threads.simps [simp del]

definition bk_free_and_exit :: "int \<Rightarrow> bk_state \<Rightarrow> (int \<times> bk_state) outcome" where
  "bk_free_and_exit rc s =
     obind (hash_table_free (Some (bk_table s)) (bk_items s)) (\<lambda>h. Ret (rc, s\<lparr>bk_items := h\<rparr>))"

definition backup_start ::
  "start_env \<Rightarrow> (bk_state \<Rightarrow> bk_state outcome) \<Rightarrow> bk_state \<Rightarrow> (int \<times> bk_state) outcome" where
  "backup_start env threads s =
     obind (oget Null_Deref (hash_table_create (se_garbage env) HASH_TABLE_MAX)) (\<lambda>HT.
       let s0 = s\<lparr>bk_table := HT, bk_arg_dir := No_Dir,
                  bk_conf := (bk_conf s)\<lparr>bc_path_to_dir := replicate HELPERS_BUF_SIZE NUL\<rparr>\<rparr> in
       if \<not> se_freopen env then bk_free_and_exit INVALID_EXIT s0
       else
         obind (backup_parse_and_serialize_config (ce_cap (se_conf env)) (ce_after (se_conf env))
                  (ce_getcwd (se_conf env)) (ce_open1 (se_conf env)) (ce_open2 (se_conf env))
                  (ce_lines (se_conf env)) (ce_alloc (se_conf env)) (se_stat env)
                  (bk_arg_dir s0, bk_conf s0)) (\<lambda>(prc, arg, c).
           let s1 = s0\<lparr>bk_arg_dir := arg, bk_conf := c\<rparr> in
           if prc \<noteq> NORMAL_EXIT then bk_free_and_exit INVALID_EXIT s1
           else if se_mutex env \<noteq> 0 then bk_free_and_exit INVALID_EXIT s1
           else if \<not> bk_create_loop env 0 then bk_free_and_exit INVALID_EXIT s1
           else
             obind (threads s1) (\<lambda>s2. bk_free_and_exit (bk_join_threads env 0 NORMAL_EXIT) s2)))"

section \<open>Any interleaving of the two threads\<close>

text \<open>
  One step is one operation on the shared state: an insertion of a path by the scan, a watch by
  either thread, the handling of an event, the closing of the descriptor, and the signal.
\<close>

inductive bk_step :: "scan_env \<Rightarrow> bk_state \<Rightarrow> bk_state \<Rightarrow> bool" for sc where
  step_insert: "nul_free v \<Longrightarrow> insert_shared sc v s = Ret s' \<Longrightarrow> bk_step sc s s'"
| step_watch: "watch_dir (sc_env sc) wd dirname watch_mask s = Ret (r, s') \<Longrightarrow> bk_step sc s s'"
| step_event: "handle_event (sc_env sc) ev s = Ret s' \<Longrightarrow> bk_step sc s s'"
| step_close: "close_inotify_fd r s = (rc, s') \<Longrightarrow> bk_step sc s s'"
| step_signal: "backup_signal_handler (sc_env sc) s = Ret s' \<Longrightarrow> bk_step sc s s'"

inductive bk_reach :: "scan_env \<Rightarrow> bk_state \<Rightarrow> bk_state \<Rightarrow> bool" for sc s0 where
  reach_start: "bk_reach sc s0 s0"
| reach_step: "bk_reach sc s0 s \<Longrightarrow> bk_step sc s s' \<Longrightarrow> bk_reach sc s0 s'"

text \<open>
  What holds in every state reached: the table is well formed and only grows (the items of
  the first state keep their addresses and strings), the current directory is an item of it or
  the one of the configuration, the configuration is the one read at the start, the flag is
  never set again, and of the commands each new one is a copy.
\<close>

definition copy_only :: "string list \<Rightarrow> bool" where
  "copy_only cs \<longleftrightarrow> (\<forall>c \<in> set cs. prefix COPY_COMMAND c)"

definition grown :: "bk_state \<Rightarrow> addr list \<Rightarrow> bk_state \<Rightarrow> addr list \<Rightarrow> bool" where
  "grown s0 as0 s as \<longleftrightarrow>
     ht_inv (bk_table s) (bk_items s) as \<and> ht_size (bk_table s) = HASH_TABLE_MAX \<and>
     (\<exists>new. as = new @ as0) \<and> (\<forall>a \<in> set as0. value_of (bk_items s) a = value_of (bk_items s0) a) \<and>
     bk_conf s = bk_conf s0 \<and> (bk_running s \<longrightarrow> bk_running s0) \<and>
     (bk_arg_dir s = bk_arg_dir s0 \<or> (\<exists>a \<in> set as. bk_arg_dir s = Item_Value a)) \<and>
     (\<exists>cs. bk_commands s = bk_commands s0 @ cs \<and> copy_only cs)"

lemma grown_refl:
  "ht_inv (bk_table s) (bk_items s) as \<Longrightarrow> ht_size (bk_table s) = HASH_TABLE_MAX \<Longrightarrow> grown s as s as"
  by (simp add: grown_def copy_only_def)

lemma grown_trans: "grown s0 as0 s as \<Longrightarrow> grown s as s' as' \<Longrightarrow> grown s0 as0 s' as'"
  by (fastforce simp: grown_def copy_only_def)

text \<open>A step that leaves the table alone.\<close>

lemma grown_same:
  assumes "ht_inv (bk_table s) (bk_items s) as" and "ht_size (bk_table s) = HASH_TABLE_MAX"
    and "bk_table s' = bk_table s" "bk_items s' = bk_items s" "bk_conf s' = bk_conf s"
    and "bk_running s' \<longrightarrow> bk_running s"
    and "bk_arg_dir s' = bk_arg_dir s \<or> (\<exists>a \<in> set as. bk_arg_dir s' = Item_Value a)"
    and "copies (bk_commands s) (bk_commands s')"
  shows "grown s as s' as"
  using assms by (auto simp: grown_def copies_def copy_only_def)

lemma copies_refl [simp]: "copies cs cs"
  by (simp add: copies_def)

lemma watch_dir_frame:
  "watch_dir env wd dirname msk s = Ret (r, s') \<Longrightarrow>
     \<exists>w files. s' = s\<lparr>bk_watched := w, bk_files := files\<rparr>"
  by (cases s) (auto simp: watch_dir_def c_simps Let_def split: option.splits if_splits)

lemma insert_shared_grown:
  assumes "i_malloc_ok (sc_malloc sc)" and "ht_inv (bk_table s) (bk_items s) as"
    and "ht_size (bk_table s) = HASH_TABLE_MAX" and "nul_free v" and "insert_shared sc v s = Ret s'"
  shows "\<exists>as'. grown s as s' as'"
proof -
  obtain a where a: "sc_malloc sc (bk_items s) = Some a" "fmlookup (bk_items s) a = None"
    using assms(1) by (auto simp: i_malloc_ok_def)
  obtain rc t' h' where ins: "hash_table_insert_item (be_over (sc_env sc)) (Some a) (Some (bk_table s)) (Some v) (bk_items s)
      = Ret (rc, Some t', h')" "\<exists>new. ht_inv t' h' (new @ as)" "ht_size t' = HASH_TABLE_MAX"
    "\<forall>b \<in> set as. value_of h' b = value_of (bk_items s) b"
    using insert_item_grows [OF assms(2,3) a(2) assms(4)] by blast
  have "s' = s\<lparr>bk_table := t', bk_items := h'\<rparr>"
    using assms(5) by (simp add: insert_shared_def insert_path_def a(1) ins(1))
  with ins show ?thesis by (auto simp: grown_def copy_only_def)
qed

lemma bk_step_grown:
  assumes "bk_step sc s s'" and "i_malloc_ok (sc_malloc sc)"
    and "ht_inv (bk_table s) (bk_items s) as" and "ht_size (bk_table s) = HASH_TABLE_MAX"
  shows "\<exists>as'. grown s as s' as'"
  using assms(1)
proof cases
  case (step_insert v)
  then show ?thesis using insert_shared_grown [OF assms(2-4)] by blast
next
  case (step_watch wd dirname r)
  then obtain w files where "s' = s\<lparr>bk_watched := w, bk_files := files\<rparr>" using watch_dir_frame by blast
  then have "grown s as s' as" by (intro grown_same [OF assms(3,4)]) simp_all
  then show ?thesis ..
next
  case (step_event ev)
  have "event_effect as s s'"
    using ensuresD [OF handle_event_effect [OF assms(3)] step_event] .
  then have "grown s as s' as"
    by (intro grown_same [OF assms(3,4)]) (auto simp: event_effect_def same_setup_def)
  then show ?thesis ..
next
  case (step_close r rc)
  then have "grown s as s' as"
    by (intro grown_same [OF assms(3,4)]) (auto simp: close_inotify_fd_def split: if_splits)
  then show ?thesis ..
next
  case step_signal
  then have "grown s as s' as"
    by (intro grown_same [OF assms(3,4)]) (auto simp: backup_signal_handler_def c_simps)
  then show ?thesis ..
qed

lemma bk_reach_grown:
  assumes "bk_reach sc s0 s" and "i_malloc_ok (sc_malloc sc)"
    and "ht_inv (bk_table s0) (bk_items s0) as0" and "ht_size (bk_table s0) = HASH_TABLE_MAX"
  shows "\<exists>as. grown s0 as0 s as"
  using assms(1)
proof induction
  case reach_start
  show ?case using grown_refl [OF assms(3,4)] ..
next
  case (reach_step s s')
  then obtain as where as: "grown s0 as0 s as" by blast
  then have "ht_inv (bk_table s) (bk_items s) as" "ht_size (bk_table s) = HASH_TABLE_MAX" by (simp_all add: grown_def)
  from bk_step_grown [OF reach_step.hyps(2) assms(2) this] as show ?case by (blast intro: grown_trans)
qed

section \<open>What the driver returns\<close>

lemma bk_create_loop_iff: "bk_create_loop env 0 \<longleftrightarrow> se_create env 0 = 0 \<and> se_create env 1 = 0"
  by (simp add: bk_create_loop.simps [of env] THREAD_COUNT_def NORMAL_EXIT_def)

text \<open>The result once both threads were waited for.\<close>

definition joined :: "start_env \<Rightarrow> bool" where
  "joined env \<longleftrightarrow> (\<forall>i < THREAD_COUNT. \<exists>k < BACKUP_MAX_SEC_WAIT. se_tryjoin env i k = 0)"

lemma bk_join_threads_eq:
  "bk_join_threads env 0 NORMAL_EXIT = (if joined env then NORMAL_EXIT else INVALID_EXIT)"
proof -
  have w: "wait_join BACKUP_MAX_SEC_WAIT (se_tryjoin env i) 0 \<longleftrightarrow> \<not> (\<exists>k < BACKUP_MAX_SEC_WAIT. se_tryjoin env i k = 0)" for i
    using wait_join_from [of 0 BACKUP_MAX_SEC_WAIT "se_tryjoin env i"] by (auto simp: BACKUP_MAX_SEC_WAIT_def)
  have "joined env \<longleftrightarrow> (\<exists>k < BACKUP_MAX_SEC_WAIT. se_tryjoin env 0 k = 0) \<and> (\<exists>k < BACKUP_MAX_SEC_WAIT. se_tryjoin env 1 k = 0)"
    by (auto simp: joined_def THREAD_COUNT_def less_2_cases_iff)
  then show ?thesis
    by (auto simp add: bk_join_threads.simps [of env] THREAD_COUNT_def w)
qed

lemma bk_free_and_exit_inv:
  "ht_inv (bk_table s) (bk_items s) as \<Longrightarrow>
     bk_free_and_exit rc s = Ret (rc, s\<lparr>bk_items := fmdrop_set (set as) (bk_items s)\<rparr>)"
  by (simp add: bk_free_and_exit_def hash_table_free_inv)

text \<open>What the configuration leaves in the shared state.\<close>

definition start_conf :: "start_env \<Rightarrow> bk_state \<Rightarrow> (int \<times> dir_ref \<times> backup_conf) outcome" where
  "start_conf env s =
     backup_parse_and_serialize_config (ce_cap (se_conf env)) (ce_after (se_conf env))
       (ce_getcwd (se_conf env)) (ce_open1 (se_conf env)) (ce_open2 (se_conf env))
       (ce_lines (se_conf env)) (ce_alloc (se_conf env)) (se_stat env)
       (No_Dir, (bk_conf s)\<lparr>bc_path_to_dir := replicate HELPERS_BUF_SIZE NUL\<rparr>)"

definition started :: "backup_conf \<Rightarrow> bk_state \<Rightarrow> bk_state" where
  "started c s = s\<lparr>bk_table := empty_table, bk_arg_dir := Dir_Buffer, bk_conf := c\<rparr>"

definition start_ready :: "start_env \<Rightarrow> bk_state \<Rightarrow> backup_conf \<Rightarrow> bool" where
  "start_ready env s c \<longleftrightarrow> se_garbage env = 0 \<and> se_freopen env \<and> start_conf env s = Ret (NORMAL_EXIT, Dir_Buffer, c) \<and>
     se_mutex env = 0 \<and> se_create env 0 = 0 \<and> se_create env 1 = 0"

lemma backup_start_ready:
  assumes "start_ready env s c"
  shows "backup_start env threads s
    = obind (threads (started c s)) (\<lambda>s2. bk_free_and_exit (if joined env then NORMAL_EXIT else INVALID_EXIT) s2)"
  using assms empty_table_created
  by (simp add: start_ready_def backup_start_def start_conf_def started_def bk_create_loop_iff bk_join_threads_eq Let_def)

text \<open>
  The schedule of \<open>backup_threads\<close>, put together from the scan and the event thread: the state
  after the scan, with the watch of the event thread counted.
\<close>

definition threads_ready :: "thread_env \<Rightarrow> qheap \<Rightarrow> fts_entry list \<Rightarrow> inotify_event list list \<Rightarrow> string \<Rightarrow> bk_state \<Rightarrow> bool" where
  "threads_ready te h es bs root s \<longleftrightarrow>
     scan_ok (te_scan te) 0 root es \<and> scan_start (te_scan te) root s \<and>
     watches_ok (te_scan te) (watched_of root (dirs_by_key es)) \<and>
     malloc_ok (te_malloc te) \<and> te_queue_malloc te h \<noteq> None \<and> delivers (te_polls te) bs \<and>
     length root \<le> 1024 \<and> 0 < te_wd te \<and> te_wd te < 2 ^ 31"

lemma iteration_runs:
  assumes "scan_ok sc fd root es" and "scan_start sc root s" and "watches_ok sc (watched_of root (dirs_by_key es))"
  shows "\<exists>rc s1. backup_fs_iteration_main sc fd s = Ret (rc, snd (open_inotify_fd (sc_inotify_init sc) fd), s1)
     \<and> scanned s (kept key_nat storable (paths_of FTS_F es @ dirs_by_key es) [])
         (length (watched_of root (dirs_by_key es))) s1"
  using check_fs_scanned [OF assms] by (auto simp: backup_fs_iteration_main_def)

lemma threads_run:
  assumes "threads_ready te h es bs root s"
  shows "\<exists>s1 s0. scanned s (kept key_nat storable (paths_of FTS_F es @ dirs_by_key es) [])
       (length (watched_of root (dirs_by_key es))) s1
     \<and> (\<exists>files. s0 = s1\<lparr>bk_watched := bk_watched s1 + 1, bk_files := files\<rparr>)
     \<and> backup_threads te h s = obind (handle_batches (sc_env (te_scan te)) bs s0)
         (\<lambda>s2. backup_signal_handler (sc_env (te_scan te)) (snd (close_inotify_fd (te_closed te) s2)))"
proof -
  let ?sc = "te_scan te"
  have scan: "scan_ok ?sc 0 root es" "scan_start ?sc root s" "watches_ok ?sc (watched_of root (dirs_by_key es))"
    and ev: "malloc_ok (te_malloc te)" "delivers (te_polls te) bs" "length root \<le> 1024" "0 < te_wd te" "te_wd te < 2 ^ 31"
    using assms by (simp_all add: threads_ready_def)
  obtain qa where qa: "te_queue_malloc te h = Some qa" using assms by (auto simp: threads_ready_def)
  define fd where "fd = snd (open_inotify_fd (sc_inotify_init ?sc) 0)"
  have fd: "fst (open_inotify_fd (sc_inotify_init ?sc) fd) > 0"
    using scan(1) by (auto simp: scan_ok_def fd_def open_inotify_fd_def HELPERS_NORMAL_EXIT_def HELPERS_INVALID_EXIT_def
        split: if_splits)
  obtain rc s1 where it: "backup_fs_iteration_main ?sc 0 s = Ret (rc, fd, s1)"
    and sc: "scanned s (kept key_nat storable (paths_of FTS_F es @ dirs_by_key es) [])
         (length (watched_of root (dirs_by_key es))) s1"
    using iteration_runs [OF scan] by (auto simp: fd_def)
  have run: "bk_running s1" and dir: "arg_dirname (sc_env ?sc) s1 = Ret (Some root)"
    using scan(2) sc dirname_scanned by (auto simp: scan_start_def scanned_def)
  obtain l where l: "cstring (bc_path_to_log (bk_conf s1)) = Some l"
    using scan(2) scanned_conf [OF sc] by (auto simp: scan_start_def)
  obtain h' files where ev_run: "pthread_on_dir_run (sc_env ?sc) (te_malloc te) (te_queue_malloc te) (sc_inotify_init ?sc)
       (te_wd te) (te_polls te) (te_closed te) (fd, None) h s1
     = obind (handle_batches (sc_env ?sc) bs (s1\<lparr>bk_watched := bk_watched s1 + 1, bk_files := files\<rparr>))
         (\<lambda>s2. Ret ((snd (open_inotify_fd (sc_inotify_init ?sc) fd), Some qa), h', snd (close_inotify_fd (te_closed te) s2)))"
    using pthread_first_run [where q_struct_malloc = "te_queue_malloc te" and h = h and closed = "te_closed te",
        OF ev(1) qa ev(2) run dir ev(3-5) l fd] by blast
  have "backup_threads te h s = obind (handle_batches (sc_env ?sc) bs (s1\<lparr>bk_watched := bk_watched s1 + 1, bk_files := files\<rparr>))
         (\<lambda>s2. backup_signal_handler (sc_env ?sc) (snd (close_inotify_fd (te_closed te) s2)))"
    by (simp add: backup_threads_def backup_loop_def general_loop_def it ev_run obind_assoc)
  with sc show ?thesis by blast
qed

section \<open>Properties\<close>



text \<open>
  Claim C25: how the driver fails.  When the streams cannot be redirected, the configuration is
  not accepted, the mutex or the first thread cannot be created, the driver returns the error
  code, frees the (empty) table and has run no command.
\<close>

theorem backup_start_fails:
  assumes "se_garbage env = 0" and "start_conf env s = Ret (prc, arg, c)"
    and "\<not> se_freopen env \<or> prc \<noteq> NORMAL_EXIT \<or> se_mutex env \<noteq> 0 \<or> se_create env 0 \<noteq> 0"
  shows "\<exists>s'. backup_start env threads s = Ret (INVALID_EXIT, s')
     \<and> bk_items s' = bk_items s \<and> bk_commands s' = bk_commands s \<and> bk_files s' = bk_files s"
proof -
  have free: "bk_free_and_exit INVALID_EXIT (s\<lparr>bk_table := empty_table, bk_arg_dir := arg', bk_conf := c'\<rparr>)
      = Ret (INVALID_EXIT, s\<lparr>bk_table := empty_table, bk_arg_dir := arg', bk_conf := c'\<rparr>)" for arg' c'
    using empty_table_inv by (subst bk_free_and_exit_inv [where as = "[]"]) (simp_all add: fmdrop_set_null)
  show ?thesis
    using assms empty_table_created free
    by (auto simp: backup_start_def start_conf_def bk_create_loop_iff Let_def)
qed

theorem backup_start_fails_witness:
  "\<exists>s'. backup_start \<lparr>se_freopen = False, se_garbage = 0,
      se_conf = \<lparr>ce_cap = backup_gcc_cap, ce_after = [LF], ce_getcwd = None, ce_open1 = (\<lambda>_. None), ce_open2 = (\<lambda>_. None),
         ce_lines = 0, ce_alloc = (\<lambda>_. True)\<rparr>,
      se_stat = (\<lambda>_. Some True), se_mutex = 0, se_create = (\<lambda>_. 0), se_tryjoin = (\<lambda>_ _. 0)\<rparr> Ret sample_bk
     = Ret (INVALID_EXIT, s') \<and> bk_commands s' = []"
proof -
  let ?env = "\<lparr>se_freopen = False, se_garbage = 0,
      se_conf = \<lparr>ce_cap = backup_gcc_cap, ce_after = [LF], ce_getcwd = None, ce_open1 = (\<lambda>_. None), ce_open2 = (\<lambda>_. None),
         ce_lines = 0, ce_alloc = (\<lambda>_. True)\<rparr>,
      se_stat = (\<lambda>_. Some True), se_mutex = 0, se_create = (\<lambda>_. 0), se_tryjoin = (\<lambda>_ _. 0)\<rparr>"
  have "\<exists>prc arg c. start_conf ?env sample_bk = Ret (prc, arg, c)"
    by (simp add: start_conf_def backup_parse_and_serialize_config_def parser_read_conf_def)
  moreover have "bk_commands sample_bk = []" by (simp add: sample_bk_def)
  ultimately show ?thesis using backup_start_fails [of ?env sample_bk _ _ _ Ret] by auto
qed

text \<open>A file for the tree \<open>/r/\<close> of the scan's sample, the kernel reporting a change to \<open>a.c\<close>.\<close>

definition sample_entries :: "(string \<times> string) list" where
  "sample_entries = [(PATH_TO_BACKUP_DEFINE, ''/bk''), (PATH_TO_DIR_DEFINE, ''/r/''), (PATH_TO_LOGGER_DEFINE, ''/l'')]"

definition sample_boot_env :: start_env where
  "sample_boot_env = \<lparr>se_freopen = True, se_garbage = 0,
     se_conf = \<lparr>ce_cap = backup_gcc_cap, ce_after = [LF], ce_getcwd = Some ''/b'',
        ce_open1 = (\<lambda>_. Some (conf_file sample_entries False)), ce_open2 = (\<lambda>_. Some (conf_file sample_entries False)),
        ce_lines = 0, ce_alloc = (\<lambda>_. True)\<rparr>,
     se_stat = (\<lambda>_. Some True), se_mutex = 0, se_create = (\<lambda>_. 0), se_tryjoin = (\<lambda>_ k. if k < 3 then 16 else 0)\<rparr>"

definition sample_boot :: bk_state where
  "sample_boot = sample_start\<lparr>bk_conf := backup_conf_init\<rparr>"

definition sample_threads :: "string \<Rightarrow> thread_env" where
  "sample_threads name = \<lparr>te_scan = sample_scan (\<lambda>_. 3), te_malloc = fresh_malloc, te_queue_malloc = (\<lambda>_. Some 1),
     te_wd = 3, te_polls = [Poll_Timeout, Poll_In (Some (event_bytes (sample_change IN_CREATE name)))], te_closed = 0\<rparr>"

lemma sample_entries_ok:
  "conf_ok sample_entries" "\<forall>e \<in> set sample_entries. backup_entry_ok (\<lambda>_. Some True) e"
  "distinct (map fst sample_entries)"
  by (simp_all add: sample_entries_def conf_ok_def wf_entry_def entry_text_def backup_entry_ok_def
      backup_keys PARSER_FILE_STROKE_MAX_LEN_def)

lemma sample_slack: "slack backup_gcc_cap (length (entry_text (PATH_TO_BACKUP_DEFINE, ''/bk'')))"
proof -
  have "length (entry_text (PATH_TO_BACKUP_DEFINE, ''/bk'')) = 19"
    by (simp add: entry_text_def PATH_TO_BACKUP_DEFINE_def)
  moreover have "slack backup_gcc_cap 19"
    unfolding slack_def backup_gcc_cap_def by presburger
  ultimately show ?thesis by simp
qed

lemma sample_ready: "start_ready sample_boot_env sample_boot (backup_conf_of sample_entries)"
proof -
  have conf: "(bk_conf sample_boot)\<lparr>bc_path_to_dir := replicate HELPERS_BUF_SIZE NUL\<rparr> = backup_conf_init"
    by (simp add: sample_boot_def backup_conf_init_def)
  have "start_conf sample_boot_env sample_boot = Ret (NORMAL_EXIT, Dir_Buffer, backup_conf_of sample_entries)"
    unfolding start_conf_def conf sample_boot_env_def
    by (simp, rule backup_parse_entries [OF sample_entries_ok, where nl = False
          and e = "(PATH_TO_BACKUP_DEFINE, ''/bk'')" and es' = "tl sample_entries" and cwd = "''/b''"])
       (simp_all add: sample_slack, simp_all add: sample_entries_def)
  then show ?thesis by (simp add: start_ready_def sample_boot_env_def)
qed

lemma sample_started: "started (backup_conf_of sample_entries) sample_boot = sample_start"
proof -
  have "conf_value sample_entries PATH_TO_DIR_DEFINE = ''/r/''" "conf_value sample_entries PATH_TO_BACKUP_DEFINE = ''/bk''"
    "conf_value sample_entries PATH_TO_LOGGER_DEFINE = ''/l''"
    by (simp_all add: conf_value_def sample_entries_def backup_keys)
  then show ?thesis
    by (simp add: started_def sample_boot_def sample_start_def sample_bk_def backup_conf_of_def)
qed

lemma sample_threads_ready:
  "length name < 16 \<Longrightarrow> threads_ready (sample_threads name) h sample_tree [[sample_change IN_CREATE name]] ''/r/'' sample_start"
  using sample_scan_ok sample_scan_start fresh_malloc_ok sample_change_wf [of name IN_CREATE]
  by (simp add: threads_ready_def sample_threads_def sample_dirs watched_of_def watches_ok_def)
     (simp add: sample_scan_def)

lemma sample_joined: "joined sample_boot_env"
  unfolding joined_def sample_boot_env_def BACKUP_MAX_SEC_WAIT_def by (intro allI impI exI [of _ 3]) simp

text \<open>
  The driver from the configuration file to its end.  It reads the file, the
  scan fills the table and sets the watches, then every batch the kernel delivers is handled in
  order on that state; after SIGINT the threads are waited for and the table is released.  The
  result is 0 exactly when both threads end within 30 attempts, the commands run are those of
  the events, and an event that faults ends the service.
\<close>

theorem service_end_to_end:
  assumes "start_ready env s c" and "threads_ready te h es bs root (started c s)"
  shows "\<exists>s1 s0 files. scanned (started c s) (kept key_nat storable (paths_of FTS_F es @ dirs_by_key es) [])
         (length (watched_of root (dirs_by_key es))) s1
     \<and> s0 = s1\<lparr>bk_watched := bk_watched s1 + 1, bk_files := files\<rparr>
     \<and> (case handle_batches (sc_env (te_scan te)) bs s0 of
          Ret s2 \<Rightarrow> \<exists>s' as. backup_start env (backup_threads te h) s
               = Ret (if joined env then NORMAL_EXIT else INVALID_EXIT, s')
             \<and> bk_commands s' = bk_commands s2 \<and> \<not> bk_running s'
             \<and> ht_inv (bk_table s1) (bk_items s1) as \<and> bk_items s' = fmdrop_set (set as) (bk_items s1)
        | Exit code \<Rightarrow> backup_start env (backup_threads te h) s = Exit code
        | Fault f \<Rightarrow> backup_start env (backup_threads te h) s = Fault f)"
proof -
  let ?env = "sc_env (te_scan te)"
  obtain s1 s0 files where sc: "scanned (started c s) (kept key_nat storable (paths_of FTS_F es @ dirs_by_key es) [])
         (length (watched_of root (dirs_by_key es))) s1"
    and s0: "s0 = s1\<lparr>bk_watched := bk_watched s1 + 1, bk_files := files\<rparr>"
    and run: "backup_threads te h (started c s) = obind (handle_batches ?env bs s0)
         (\<lambda>s2. backup_signal_handler ?env (snd (close_inotify_fd (te_closed te) s2)))"
    using threads_run [OF assms(2)] by blast
  obtain l where "cstring (bc_path_to_log (bk_conf s1)) = Some l"
    using assms(2) scanned_conf [OF sc] by (auto simp: threads_ready_def scan_start_def)
  then have l: "cstring (bc_path_to_log (bk_conf s0)) = Some l" by (simp add: s0)
  obtain as where as: "ht_inv (bk_table s1) (bk_items s1) as"
    using scanned_rep [OF sc] by (auto simp: store_rep_def)
  note start = backup_start_ready [OF assms(1), of "backup_threads te h", unfolded run]
  have "case handle_batches ?env bs s0 of
          Ret s2 \<Rightarrow> \<exists>s' as. backup_start env (backup_threads te h) s
               = Ret (if joined env then NORMAL_EXIT else INVALID_EXIT, s')
             \<and> bk_commands s' = bk_commands s2 \<and> \<not> bk_running s'
             \<and> ht_inv (bk_table s1) (bk_items s1) as \<and> bk_items s' = fmdrop_set (set as) (bk_items s1)
        | Exit code \<Rightarrow> backup_start env (backup_threads te h) s = Exit code
        | Fault f \<Rightarrow> backup_start env (backup_threads te h) s = Fault f"
  proof (cases "handle_batches ?env bs s0")
    case (Ret s2)
    define s3 where "s3 = snd (close_inotify_fd (te_closed te) s2)"
    have fr: "same_setup s0 s3"
      using same_setup_trans [OF handle_batches_setup [OF Ret] same_setup_close] by (simp add: s3_def)
    have cmds: "bk_commands s3 = bk_commands s2" by (simp add: s3_def close_inotify_fd_def)
    obtain fs where sig: "backup_signal_handler ?env s3 = Ret (s3\<lparr>bk_files := fs, bk_running := False\<rparr>)"
      using signal_handler_runs [of s3 l ?env] l fr by (auto simp: same_setup_def)
    have "ht_inv (bk_table s3) (bk_items s3) as" and items: "bk_items s3 = bk_items s1"
      using as fr by (simp_all add: same_setup_def s0)
    then have "bk_free_and_exit rc (s3\<lparr>bk_files := fs, bk_running := False\<rparr>)
        = Ret (rc, s3\<lparr>bk_files := fs, bk_running := False, bk_items := fmdrop_set (set as) (bk_items s1)\<rparr>)" for rc
      by (subst bk_free_and_exit_inv [where as = as]) simp_all
    then have "backup_start env (backup_threads te h) s = Ret (if joined env then NORMAL_EXIT else INVALID_EXIT,
        s3\<lparr>bk_files := fs, bk_running := False, bk_items := fmdrop_set (set as) (bk_items s1)\<rparr>)"
      by (simp add: start Ret sig flip: s3_def)
    with Ret as cmds show ?thesis by auto
  qed (simp_all add: start)
  with sc s0 show ?thesis by blast
qed

text \<open>
  The file \<open>.x\<close> is ignored: the service ends with code 0, no command run, the table released.
\<close>

theorem service_end_to_end_witness:
  "\<exists>s'. backup_start sample_boot_env (backup_threads (sample_threads ''.x'') \<lparr>qstructs = fmempty, qentries = fmempty\<rparr>) sample_boot
     = Ret (NORMAL_EXIT, s') \<and> bk_commands s' = [] \<and> \<not> bk_running s'"
proof -
  have dot: "handle_event env (sample_change IN_CREATE ''.x'') t = Ret t" for env t
    by (simp add: handle_event_def sample_change_def inotify_bits HELPERS_DOT_def)
  have batches: "handle_batches env [[sample_change IN_CREATE ''.x'']] t = Ret t" for env t by (simp add: dot)
  have ready: "threads_ready (sample_threads ''.x'') \<lparr>qstructs = fmempty, qentries = fmempty\<rparr> sample_tree
      [[sample_change IN_CREATE ''.x'']] ''/r/'' (started (backup_conf_of sample_entries) sample_boot)"
    unfolding sample_started by (rule sample_threads_ready) simp
  obtain s1 s0 files s' where sc: "scanned sample_start (kept key_nat storable (paths_of FTS_F sample_tree @ dirs_by_key sample_tree) [])
         (length (watched_of ''/r/'' (dirs_by_key sample_tree))) s1"
    and "s0 = s1\<lparr>bk_watched := bk_watched s1 + 1, bk_files := files\<rparr>"
    and "backup_start sample_boot_env (backup_threads (sample_threads ''.x'') \<lparr>qstructs = fmempty, qentries = fmempty\<rparr>) sample_boot
       = Ret (NORMAL_EXIT, s')" "bk_commands s' = bk_commands s0" "\<not> bk_running s'"
    using service_end_to_end [OF sample_ready ready] sample_joined unfolding batches sample_started by auto
  moreover have "bk_commands s1 = []" using sc by (auto simp: scanned_def sample_start_def sample_bk_def)
  ultimately show ?thesis by auto
qed

end
